theory Spec2Isabelle
  imports Main
begin

section \<open>A reference-counted handle: the class \<open>smart_ptr<T>\<close>\<close>

text \<open>
  The repository holds two copies of one class template, \<open>smart_ptr<T>\<close>: one in
  \<open>Project 2 - Smart Pointers (PC).cpp\<close> and one in \<open>Smart Pointers Project 2/main.cpp\<close>.
  An object of the class has two fields, \<open>T* ptr_\<close> and \<open>int* ref_\<close>; several objects
  may hold the same two addresses, so the model keeps an explicit store: the value objects
  and the counters live in two maps from addresses, and the handles of the program are kept
  in a table indexed by a handle identifier. Every member function becomes a function on
  that store.

  Everything the C++ would do beyond returning becomes a value of \<open>error\<close>: the exception
  \<open>null_ptr_exception\<close>, and the four ways in which the member functions can leave defined
  behaviour (reading through a null pointer, reading or writing a freed object, deleting a
  freed object, overflow of the \<open>int\<close> counter). Allocation is assumed to succeed, and an
  address is never handed out twice, so that a dangling pointer is always recognised.
\<close>

subsection \<open>Store and handles\<close>

type_synonym addr = nat
type_synonym hid = nat

datatype fault = Null_deref | Use_after_free | Double_free | Signed_overflow

datatype error = Null_ptr_exception | Undefined fault | Bad_handle

text \<open>
  The two private fields. Isabelle does not accept a name that ends in an underscore, so
  \<open>ptr_\<close> is \<open>ptr\<close> and \<open>ref_\<close> is \<open>ref\<close>; \<open>None\<close> is \<open>nullptr\<close>.
\<close>

record smart_ptr =
  ptr :: "addr option"
  ref :: "addr option"

text \<open>
  \<open>vals\<close> holds the live objects of type \<open>T\<close>, \<open>cnts\<close> the live counters; a freed address
  maps to \<open>None\<close>. \<open>handles\<close> is the table of \<open>smart_ptr\<close> objects: a slot is \<open>None\<close> once
  the object's lifetime has ended. \<open>cout\<close> is what has been written to \<open>cout\<close> by the
  member functions.
\<close>

record 'v state =
  vals :: "addr \<Rightarrow> 'v option"
  cnts :: "addr \<Rightarrow> int option"
  next_addr :: addr
  handles :: "smart_ptr option list"
  cout :: "string list"

definition init :: "'v state" where
  "init = \<lparr>vals = (\<lambda>_. None), cnts = (\<lambda>_. None), next_addr = 0, handles = [], cout = []\<rparr>"

text \<open>The two copies of the class.\<close>

datatype variant = PC | Main_cpp

definition INT_MAX :: int where
  "INT_MAX = 2147483647"

definition INT_MIN :: int where
  "INT_MIN = - 2147483648"

definition bnd :: "error + 'a \<Rightarrow> ('a \<Rightarrow> error + 'b) \<Rightarrow> error + 'b" where
  "bnd m f = (case m of Inl e \<Rightarrow> Inl e | Inr x \<Rightarrow> f x)"

subsection \<open>Allocation, deallocation and access to the counter\<close>

text \<open>\<open>new int(k)\<close> and \<open>new T(v)\<close>.\<close>

definition new_int :: "int \<Rightarrow> 'v state \<Rightarrow> addr \<times> 'v state" where
  "new_int k s =
     (next_addr s, s\<lparr>cnts := (cnts s)(next_addr s \<mapsto> k), next_addr := Suc (next_addr s)\<rparr>)"

definition new_T :: "'v \<Rightarrow> 'v state \<Rightarrow> addr \<times> 'v state" where
  "new_T v s =
     (next_addr s, s\<lparr>vals := (vals s)(next_addr s \<mapsto> v), next_addr := Suc (next_addr s)\<rparr>)"

text \<open>\<open>delete ptr_\<close> and \<open>delete ref_\<close>: deleting \<open>nullptr\<close> does nothing.\<close>

definition delete_T :: "addr option \<Rightarrow> 'v state \<Rightarrow> error + 'v state" where
  "delete_T p s =
     (case p of
        None \<Rightarrow> Inr s
      | Some a \<Rightarrow>
          (if vals s a = None then Inl (Undefined Double_free)
           else Inr (s\<lparr>vals := (vals s)(a := None)\<rparr>)))"

definition delete_int :: "addr option \<Rightarrow> 'v state \<Rightarrow> error + 'v state" where
  "delete_int r s =
     (case r of
        None \<Rightarrow> Inr s
      | Some a \<Rightarrow>
          (if cnts s a = None then Inl (Undefined Double_free)
           else Inr (s\<lparr>cnts := (cnts s)(a := None)\<rparr>)))"

text \<open>\<open>*ref_\<close>, \<open>(*ref_)++\<close> and \<open>--(*ref_)\<close> (which yields the new value).\<close>

definition load :: "addr option \<Rightarrow> 'v state \<Rightarrow> error + int" where
  "load r s =
     (case r of
        None \<Rightarrow> Inl (Undefined Null_deref)
      | Some a \<Rightarrow>
          (case cnts s a of
             None \<Rightarrow> Inl (Undefined Use_after_free)
           | Some n \<Rightarrow> Inr n))"

definition incr :: "addr option \<Rightarrow> 'v state \<Rightarrow> error + 'v state" where
  "incr r s =
     bnd (load r s) (\<lambda>n.
       if n = INT_MAX then Inl (Undefined Signed_overflow)
       else Inr (s\<lparr>cnts := (cnts s)(the r \<mapsto> n + 1)\<rparr>))"

definition decr :: "addr option \<Rightarrow> 'v state \<Rightarrow> error + int \<times> 'v state" where
  "decr r s =
     bnd (load r s) (\<lambda>n.
       if n = INT_MIN then Inl (Undefined Signed_overflow)
       else Inr (n - 1, s\<lparr>cnts := (cnts s)(the r \<mapsto> n - 1)\<rparr>))"

text \<open>\<open>*ptr_\<close> read as a value, as the copy constructor of \<open>T\<close> does in \<open>clone\<close>.\<close>

definition read_T :: "addr option \<Rightarrow> 'v state \<Rightarrow> error + 'v" where
  "read_T p s =
     (case p of
        None \<Rightarrow> Inl (Undefined Null_deref)
      | Some a \<Rightarrow>
          (case vals s a of
             None \<Rightarrow> Inl (Undefined Use_after_free)
           | Some v \<Rightarrow> Inr v))"

subsection \<open>The handle table\<close>

definition the_handle :: "hid \<Rightarrow> 'v state \<Rightarrow> error + smart_ptr" where
  "the_handle h s =
     (if h < length (handles s)
      then (case handles s ! h of None \<Rightarrow> Inl Bad_handle | Some x \<Rightarrow> Inr x)
      else Inl Bad_handle)"

definition set_handle :: "hid \<Rightarrow> smart_ptr \<Rightarrow> 'v state \<Rightarrow> 'v state" where
  "set_handle h x s = s\<lparr>handles := (handles s)[h := Some x]\<rparr>"

definition add_handle :: "smart_ptr \<Rightarrow> 'v state \<Rightarrow> hid \<times> 'v state" where
  "add_handle x s = (length (handles s), s\<lparr>handles := handles s @ [Some x]\<rparr>)"

definition end_lifetime :: "hid \<Rightarrow> 'v state \<Rightarrow> 'v state" where
  "end_lifetime h s = s\<lparr>handles := (handles s)[h := None]\<rparr>"

definition cout_write :: "string \<Rightarrow> 'v state \<Rightarrow> 'v state" where
  "cout_write txt s = s\<lparr>cout := cout s @ [txt]\<rparr>"

subsection \<open>The member functions\<close>

text \<open>
  \<open>release()\<close>: \<open>if (ref_ && --(*ref_) == 0) { delete ptr_; delete ref_; }\<close>, then both
  fields are set to \<open>nullptr\<close>. It is the same in both copies.
\<close>

definition release :: "hid \<Rightarrow> 'v state \<Rightarrow> error + 'v state" where
  "release this s =
     bnd (the_handle this s) (\<lambda>x.
       bnd (if ref x = None then Inr s
            else bnd (decr (ref x) s) (\<lambda>(n, s1).
                   if n = 0 then bnd (delete_T (ptr x) s1) (delete_int (ref x))
                   else Inr s1))
         (\<lambda>s2. Inr (set_handle this \<lparr>ptr = None, ref = None\<rparr> s2)))"

text \<open>\<open>smart_ptr()\<close>: \<open>ptr_(nullptr), ref_(new int(0))\<close>.\<close>

definition ctor_default :: "'v state \<Rightarrow> hid \<times> 'v state" where
  "ctor_default s =
     (let (r, s1) = new_int 0 s
      in add_handle \<lparr>ptr = None, ref = Some r\<rparr> s1)"

text \<open>
  \<open>explicit smart_ptr(T*& raw_ptr)\<close>: \<open>ptr_(raw_ptr), ref_(new int(1))\<close>. The result also
  gives the caller's pointer variable after the call, which this constructor leaves alone.
\<close>

definition ctor_raw :: "addr option \<Rightarrow> 'v state \<Rightarrow> addr option \<times> hid \<times> 'v state" where
  "ctor_raw raw_ptr s =
     (let (r, s1) = new_int 1 s;
          (h, s2) = add_handle \<lparr>ptr = raw_ptr, ref = Some r\<rparr> s1
      in (raw_ptr, h, s2))"

text \<open>
  \<open>explicit smart_ptr(T*&& raw_ptr)\<close>: the same, and then \<open>raw_ptr = nullptr\<close>.
\<close>

definition ctor_raw_consume :: "addr option \<Rightarrow> 'v state \<Rightarrow> addr option \<times> hid \<times> 'v state" where
  "ctor_raw_consume raw_ptr s =
     (let (r, s1) = new_int 1 s;
          (h, s2) = add_handle \<lparr>ptr = raw_ptr, ref = Some r\<rparr> s1
      in (None, h, s2))"

text \<open>
  \<open>smart_ptr(const smart_ptr& rhs)\<close>: \<open>ptr_(rhs.ptr_), ref_(rhs.ref_)\<close>, then
  \<open>if (ptr_) (*ref_)++\<close>.
\<close>

definition ctor_copy :: "hid \<Rightarrow> 'v state \<Rightarrow> error + hid \<times> 'v state" where
  "ctor_copy rhs s =
     bnd (the_handle rhs s) (\<lambda>x.
       let (h, s1) = add_handle \<lparr>ptr = ptr x, ref = ref x\<rparr> s
       in if ptr x \<noteq> None then bnd (incr (ref x) s1) (\<lambda>s2. Inr (h, s2))
          else Inr (h, s1))"

text \<open>
  \<open>smart_ptr(smart_ptr&& rhs)\<close>: \<open>ptr_(rhs.ptr_), ref_(rhs.ref_)\<close>, then
  \<open>rhs.ptr_ = nullptr; rhs.ref_ = nullptr\<close>.
\<close>

definition ctor_move :: "hid \<Rightarrow> 'v state \<Rightarrow> error + hid \<times> 'v state" where
  "ctor_move rhs s =
     bnd (the_handle rhs s) (\<lambda>x.
       let (h, s1) = add_handle \<lparr>ptr = ptr x, ref = ref x\<rparr> s
       in Inr (h, set_handle rhs \<lparr>ptr = None, ref = None\<rparr> s1))"

text \<open>
  \<open>operator=(const smart_ptr& rhs)\<close>: under \<open>this != &rhs\<close>, \<open>release()\<close>, then
  \<open>ptr_ = rhs.ptr_; ref_ = rhs.ref_; if (ptr_) (*ref_)++\<close>.
\<close>

definition copy_assign :: "hid \<Rightarrow> hid \<Rightarrow> 'v state \<Rightarrow> error + 'v state" where
  "copy_assign this rhs s =
     bnd (the_handle this s) (\<lambda>_.
     bnd (the_handle rhs s) (\<lambda>_.
       if this \<noteq> rhs then
         bnd (release this s) (\<lambda>s1.
         bnd (the_handle rhs s1) (\<lambda>x.
           let s2 = set_handle this \<lparr>ptr = ptr x, ref = ref x\<rparr> s1
           in if ptr x \<noteq> None then incr (ref x) s2 else Inr s2))
       else Inr s))"

text \<open>
  \<open>operator=(smart_ptr&& rhs)\<close>: under \<open>this != &rhs\<close>, \<open>release()\<close>, then
  \<open>ptr_ = rhs.ptr_; ref_ = rhs.ref_; rhs.ptr_ = nullptr\<close>, and a last statement that differs:
  the first copy has \<open>rhs.ref_ = nullptr\<close>, the second \<open>rhs.red_ = nullptr\<close>. The class has
  no member \<open>red_\<close>: a compiler that checks the member rejects the function once it is
  instantiated, and \<open>main\<close> of that file never calls it. The model takes the statement as an
  assignment that reaches neither field of \<open>rhs\<close>, so \<open>rhs.ref_\<close> keeps its value. The first
  copy also writes a line to \<open>cout\<close> before the test.
\<close>

definition move_assign :: "variant \<Rightarrow> hid \<Rightarrow> hid \<Rightarrow> 'v state \<Rightarrow> error + 'v state" where
  "move_assign var this rhs s =
     bnd (the_handle this s) (\<lambda>_.
     bnd (the_handle rhs s) (\<lambda>_.
       let s0 = (if var = PC then cout_write ''Move assignment operator called\<newline>'' s else s)
       in if this \<noteq> rhs then
            bnd (release this s0) (\<lambda>s1.
            bnd (the_handle rhs s1) (\<lambda>x.
              let s2 = set_handle this \<lparr>ptr = ptr x, ref = ref x\<rparr> s1;
                  s3 = set_handle rhs (x\<lparr>ptr := None\<rparr>) s2
              in Inr (if var = PC then set_handle rhs \<lparr>ptr = None, ref = None\<rparr> s3 else s3)))
          else Inr s0))"

text \<open>
  \<open>clone()\<close>: \<open>if (!ptr_ || *ref_ == 1) return false\<close>; otherwise
  \<open>T* new_ptr = new T(*ptr_); --(*ref_); ptr_ = new_ptr; ref_ = new int(1); return true\<close>.
  The copy constructor of \<open>T\<close> is taken to copy the content of the object.
\<close>

definition clone :: "hid \<Rightarrow> 'v state \<Rightarrow> error + bool \<times> 'v state" where
  "clone this s =
     bnd (the_handle this s) (\<lambda>x.
       if ptr x = None then Inr (False, s)
       else bnd (load (ref x) s) (\<lambda>n.
         if n = 1 then Inr (False, s)
         else bnd (read_T (ptr x) s) (\<lambda>v.
           let (new_ptr, s1) = new_T v s
           in bnd (decr (ref x) s1) (\<lambda>(_, s2).
                let (r, s3) = new_int 1 s2
                in Inr (True, set_handle this \<lparr>ptr = Some new_ptr, ref = Some r\<rparr> s3)))))"

text \<open>\<open>ref_count()\<close>: \<open>return *ref_\<close>.\<close>

definition ref_count :: "hid \<Rightarrow> 'v state \<Rightarrow> error + int" where
  "ref_count this s = bnd (the_handle this s) (\<lambda>x. load (ref x) s)"

text \<open>
  \<open>operator*\<close> and \<open>operator->\<close>: \<open>if (!ptr_) throw null_ptr_exception()\<close>, then the
  reference \<open>*ptr_\<close>, or the pointer \<open>ptr_\<close>: in the model both are the address.
\<close>

definition deref :: "hid \<Rightarrow> 'v state \<Rightarrow> error + addr" where
  "deref this s =
     bnd (the_handle this s) (\<lambda>x.
       case ptr x of None \<Rightarrow> Inl Null_ptr_exception | Some p \<Rightarrow> Inr p)"

definition arrow :: "hid \<Rightarrow> 'v state \<Rightarrow> error + addr" where
  "arrow this s =
     bnd (the_handle this s) (\<lambda>x.
       case ptr x of None \<Rightarrow> Inl Null_ptr_exception | Some p \<Rightarrow> Inr p)"

text \<open>\<open>~smart_ptr()\<close>: \<open>release()\<close>; afterwards the object is gone.\<close>

definition dtor :: "hid \<Rightarrow> 'v state \<Rightarrow> error + 'v state" where
  "dtor this s = bnd (release this s) (\<lambda>s1. Inr (end_lifetime this s1))"

subsection \<open>Programs over the class\<close>

text \<open>
  A caller's program is a list of operations on handles. A raw-pointer constructor is given
  either \<open>nullptr\<close> (\<open>None\<close>) or a pointer to an object that the caller has just allocated
  with \<open>new T(v)\<close> (\<open>Some v\<close>), as \<open>main\<close> does. A handle is named by its position in the
  table: the \<open>n\<close>-th handle constructed is handle \<open>n\<close>. An error ends the program.
\<close>

datatype 'v op =
    Default_ctor
  | Raw_ctor "'v option"
  | Raw_ctor_consume "'v option"
  | Copy_ctor hid
  | Move_ctor hid
  | Copy_assign hid hid
  | Move_assign hid hid
  | Clone hid
  | Ref_count hid
  | Deref hid
  | Arrow hid
  | Dtor hid

datatype result = Done | Handle hid | Flag bool | Count int | Address addr

definition new_raw :: "'v option \<Rightarrow> 'v state \<Rightarrow> addr option \<times> 'v state" where
  "new_raw v s =
     (case v of
        None \<Rightarrow> (None, s)
      | Some w \<Rightarrow> (let (a, s1) = new_T w s in (Some a, s1)))"

fun step :: "variant \<Rightarrow> 'v op \<Rightarrow> 'v state \<Rightarrow> error + result \<times> 'v state" where
  "step var Default_ctor s = (let (h, s1) = ctor_default s in Inr (Handle h, s1))"
| "step var (Raw_ctor v) s =
     (let (raw, s1) = new_raw v s; (_, h, s2) = ctor_raw raw s1 in Inr (Handle h, s2))"
| "step var (Raw_ctor_consume v) s =
     (let (raw, s1) = new_raw v s; (_, h, s2) = ctor_raw_consume raw s1 in Inr (Handle h, s2))"
| "step var (Copy_ctor rhs) s = bnd (ctor_copy rhs s) (\<lambda>(h, s1). Inr (Handle h, s1))"
| "step var (Move_ctor rhs) s = bnd (ctor_move rhs s) (\<lambda>(h, s1). Inr (Handle h, s1))"
| "step var (Copy_assign this rhs) s = bnd (copy_assign this rhs s) (\<lambda>s1. Inr (Done, s1))"
| "step var (Move_assign this rhs) s = bnd (move_assign var this rhs s) (\<lambda>s1. Inr (Done, s1))"
| "step var (Clone this) s = bnd (clone this s) (\<lambda>(b, s1). Inr (Flag b, s1))"
| "step var (Ref_count this) s = bnd (ref_count this s) (\<lambda>n. Inr (Count n, s))"
| "step var (Deref this) s = bnd (deref this s) (\<lambda>a. Inr (Address a, s))"
| "step var (Arrow this) s = bnd (arrow this s) (\<lambda>a. Inr (Address a, s))"
| "step var (Dtor this) s = bnd (dtor this s) (\<lambda>s1. Inr (Done, s1))"

fun run :: "variant \<Rightarrow> 'v op list \<Rightarrow> 'v state \<Rightarrow> error + result list \<times> 'v state" where
  "run var [] s = Inr ([], s)"
| "run var (c # cs) s =
     bnd (step var c s) (\<lambda>(r, s1).
     bnd (run var cs s1) (\<lambda>(rs, s2). Inr (r # rs, s2)))"

text \<open>What a program returns, and the handle table it ends with.\<close>

definition results :: "variant \<Rightarrow> 'v op list \<Rightarrow> 'v state \<Rightarrow> error + result list" where
  "results var cs s = bnd (run var cs s) (\<lambda>(rs, s1). Inr rs)"

definition final_handles ::
  "variant \<Rightarrow> 'v op list \<Rightarrow> 'v state \<Rightarrow> error + smart_ptr option list" where
  "final_handles var cs s = bnd (run var cs s) (\<lambda>(rs, s1). Inr (handles s1))"

subsection \<open>Well-formed stores\<close>

text \<open>The allocator has never handed out an address at or above \<open>next_addr\<close>.\<close>

definition alloc_ok :: "'v state \<Rightarrow> bool" where
  "alloc_ok s \<longleftrightarrow> (\<forall>a. next_addr s \<le> a \<longrightarrow> vals s a = None \<and> cnts s a = None)"

subsection \<open>Example stores\<close>

text \<open>
  \<open>one_owner\<close>: after \<open>smart_ptr<int> sp1{new int{42}}\<close>. \<open>two_owners\<close>: after a copy
  \<open>smart_ptr<int> sp2{sp1}\<close> as well. \<open>owner_and_empty\<close>: \<open>sp1\<close> and a default-constructed
  \<open>sp3\<close>.
\<close>

definition one_owner :: "int state" where
  "one_owner =
     \<lparr>vals = [0 \<mapsto> 42], cnts = [1 \<mapsto> 1], next_addr = 2,
      handles = [Some \<lparr>ptr = Some 0, ref = Some 1\<rparr>], cout = []\<rparr>"

definition two_owners :: "int state" where
  "two_owners =
     \<lparr>vals = [0 \<mapsto> 42], cnts = [1 \<mapsto> 2], next_addr = 2,
      handles = [Some \<lparr>ptr = Some 0, ref = Some 1\<rparr>, Some \<lparr>ptr = Some 0, ref = Some 1\<rparr>],
      cout = []\<rparr>"

definition owner_and_empty :: "int state" where
  "owner_and_empty =
     \<lparr>vals = [0 \<mapsto> 42], cnts = [1 \<mapsto> 1, 2 \<mapsto> 0], next_addr = 3,
      handles = [Some \<lparr>ptr = Some 0, ref = Some 1\<rparr>, Some \<lparr>ptr = None, ref = Some 2\<rparr>],
      cout = []\<rparr>"

subsection \<open>Storage that no handle can reach\<close>

definition ptr_of :: "smart_ptr option \<Rightarrow> addr option" where
  "ptr_of y = (case y of None \<Rightarrow> None | Some x \<Rightarrow> ptr x)"

definition ref_of :: "smart_ptr option \<Rightarrow> addr option" where
  "ref_of y = (case y of None \<Rightarrow> None | Some x \<Rightarrow> ref x)"

text \<open>The counters that are still allocated although no live handle holds their address.\<close>

definition leaked_counts :: "'v state \<Rightarrow> addr list" where
  "leaked_counts s =
     filter (\<lambda>a. cnts s a \<noteq> None \<and> Some a \<notin> set (map ref_of (handles s))) [0..<next_addr s]"

subsection \<open>The ownership invariant\<close>

text \<open>
  \<open>nrefs r hs\<close> is the number of live handles of the table that hold the counter address
  \<open>r\<close>, \<open>nptrs p hs\<close> the number that hold the object address \<open>p\<close>.
\<close>

definition nrefs :: "addr \<Rightarrow> smart_ptr option list \<Rightarrow> int" where
  "nrefs r hs = int (length (filter (\<lambda>y. ref_of y = Some r) hs))"

definition nptrs :: "addr \<Rightarrow> smart_ptr option list \<Rightarrow> int" where
  "nptrs p hs = int (length (filter (\<lambda>y. ptr_of y = Some p) hs))"

text \<open>
  A slot is blank when it holds neither address: a handle whose two fields are null, or a
  handle whose lifetime has ended.
\<close>

definition blank :: "smart_ptr option \<Rightarrow> bool" where
  "blank y \<longleftrightarrow> ptr_of y = None \<and> ref_of y = None"

text \<open>
  The invariant of the store. Every non-empty handle points to a live object and holds a
  live counter; the counter's value is the number of handles that hold it; and the handles
  that hold that counter are exactly the handles that point to that object. Nothing is
  required of an empty handle. Every address held by a handle has been handed out by the
  allocator.
\<close>

definition owners_ok :: "(addr \<Rightarrow> 'v option) \<Rightarrow> (addr \<Rightarrow> int option) \<Rightarrow> smart_ptr option list \<Rightarrow> bool" where
  "owners_ok vs cs hs \<longleftrightarrow>
     (\<forall>y\<in>set hs. \<forall>p. ptr_of y = Some p \<longrightarrow>
        vs p \<noteq> None \<and>
        (\<exists>r. ref_of y = Some r \<and> cs r = Some (nrefs r hs) \<and>
             (\<forall>z\<in>set hs. (ref_of z = Some r) = (ptr_of z = Some p))))"

definition handles_below :: "addr \<Rightarrow> smart_ptr option list \<Rightarrow> bool" where
  "handles_below n hs \<longleftrightarrow> (\<forall>y\<in>set hs. \<forall>a. (ptr_of y = Some a \<or> ref_of y = Some a) \<longrightarrow> a < n)"

definition well_formed :: "'v state \<Rightarrow> bool" where
  "well_formed s \<longleftrightarrow> alloc_ok s \<and> handles_below (next_addr s) (handles s) \<and> owners_ok (vals s) (cnts s) (handles s)"

text \<open>
  Every operation but one keeps the invariant: the move assignment between two distinct
  handles in the second copy of the class, which leaves \<open>rhs.ref_\<close> in place.
\<close>

definition sound_op :: "variant \<Rightarrow> 'v op \<Rightarrow> bool" where
  "sound_op var c = (case c of Move_assign this rhs \<Rightarrow> var = PC \<or> this = rhs | _ \<Rightarrow> True)"

section \<open>Properties\<close>

lemma bnd_simps [simp]: "bnd (Inl e) f = Inl e" "bnd (Inr x) f = f x"
  by (simp_all add: bnd_def)

lemmas prim_defs =
  new_int_def new_T_def delete_T_def delete_int_def load_def incr_def decr_def read_T_def
  the_handle_def set_handle_def add_handle_def end_lifetime_def cout_write_def new_raw_def

lemmas member_defs =
  release_def ctor_default_def ctor_raw_def ctor_raw_consume_def ctor_copy_def ctor_move_def
  copy_assign_def move_assign_def clone_def ref_count_def deref_def arrow_def dtor_def

text \<open>The example stores are the stores that the programs named above end in.\<close>

lemma one_owner_run:
  "run var [Raw_ctor_consume (Some 42)] init = Inr ([Handle 0], one_owner)"
  by (simp add: init_def one_owner_def prim_defs member_defs)

lemma two_owners_run:
  "run var [Raw_ctor_consume (Some 42), Copy_ctor 0] init = Inr ([Handle 0, Handle 1], two_owners)"
  by (simp add: init_def two_owners_def prim_defs member_defs INT_MAX_def)

lemma owner_and_empty_run:
  "run var [Raw_ctor_consume (Some 42), Default_ctor] init
     = Inr ([Handle 0, Handle 1], owner_and_empty)"
  by (simp add: init_def owner_and_empty_def prim_defs member_defs eval_nat_numeral)

subsection \<open>What \<open>release\<close> does\<close>

lemma release_None:
  "the_handle this s = Inr y \<Longrightarrow> ref y = None \<Longrightarrow>
     release this s = Inr (set_handle this \<lparr>ptr = None, ref = None\<rparr> s)"
  by (simp add: release_def)

lemma release_Some:
  "the_handle this s = Inr y \<Longrightarrow> ref y = Some r \<Longrightarrow>
     release this s =
       (case cnts s r of
          None \<Rightarrow> Inl (Undefined Use_after_free)
        | Some m \<Rightarrow>
            if m = INT_MIN then Inl (Undefined Signed_overflow)
            else if m = 1 then
              (case ptr y of
                 None \<Rightarrow> Inr (set_handle this \<lparr>ptr = None, ref = None\<rparr> (s\<lparr>cnts := (cnts s)(r := None)\<rparr>))
               | Some p \<Rightarrow>
                   if vals s p = None then Inl (Undefined Double_free)
                   else Inr (set_handle this \<lparr>ptr = None, ref = None\<rparr>
                          (s\<lparr>vals := (vals s)(p := None), cnts := (cnts s)(r := None)\<rparr>)))
            else Inr (set_handle this \<lparr>ptr = None, ref = None\<rparr> (s\<lparr>cnts := (cnts s)(r \<mapsto> m - 1)\<rparr>)))"
  by (simp add: release_def decr_def load_def delete_T_def delete_int_def set_handle_def
      split: option.splits)


lemma set_handle_fields [simp]:
  "handles (set_handle h x s) = (handles s)[h := Some x]"
  "vals (set_handle h x s) = vals s"
  "cnts (set_handle h x s) = cnts s"
  "next_addr (set_handle h x s) = next_addr s"
  "cout (set_handle h x s) = cout s"
  by (simp_all add: set_handle_def)

lemma release_handles:
  assumes "the_handle this s = Inr y" "release this s = Inr s1"
  shows "handles s1 = (handles s)[this := Some \<lparr>ptr = None, ref = None\<rparr>] \<and>
         next_addr s1 = next_addr s \<and> cout s1 = cout s"
proof (cases "ref y")
  case None
  then show ?thesis using assms by (auto simp: release_None)
next
  case (Some r)
  then show ?thesis using assms
    by (auto simp: release_Some split: option.splits if_splits)
qed

lemma release_other_counter:
  assumes "the_handle this s = Inr y" "release this s = Inr s1" "ref y \<noteq> Some r"
  shows "cnts s1 r = cnts s r"
proof (cases "ref y")
  case None
  then show ?thesis using assms by (auto simp: release_None)
next
  case (Some q)
  then show ?thesis using assms
    by (auto simp: release_Some split: option.splits if_splits)
qed

lemma release_keeps_other_handle:
  assumes "the_handle this s = Inr y" "release this s = Inr s1" "this \<noteq> rhs"
  shows "the_handle rhs s1 = the_handle rhs s"
  using release_handles[OF assms(1,2)] assms(3) by (simp add: the_handle_def)

lemma release_makes_empty:
  assumes "the_handle this s = Inr y" "release this s = Inr s1"
  shows "the_handle this s1 = Inr \<lparr>ptr = None, ref = None\<rparr>"
  using release_handles[OF assms(1,2)] assms(1)
  by (simp add: the_handle_def split: if_splits)

lemma release_same_group:
  assumes "the_handle this s = Inr y" "ref y = Some r" "cnts s r = Some n" "n \<noteq> 1" "n \<noteq> INT_MIN"
  shows "release this s = Inr (set_handle this \<lparr>ptr = None, ref = None\<rparr> (s\<lparr>cnts := (cnts s)(r \<mapsto> n - 1)\<rparr>))"
  using assms by (simp add: release_Some)

lemma cout_write_fields [simp]:
  "handles (cout_write t s) = handles s"
  "vals (cout_write t s) = vals s"
  "cnts (cout_write t s) = cnts s"
  "next_addr (cout_write t s) = next_addr s"
  by (simp_all add: cout_write_def)

lemma the_handle_cout_write [simp]: "the_handle h (cout_write t s) = the_handle h s"
  by (simp add: the_handle_def)

lemma release_cout_write:
  "release this (cout_write t s) = bnd (release this s) (\<lambda>s1. Inr (cout_write t s1))"
proof (cases "the_handle this s")
  case (Inl e)
  then show ?thesis by (simp add: release_def)
next
  case (Inr y)
  show ?thesis
  proof (cases "ref y")
    case None
    have "the_handle this (cout_write t s) = Inr y" using Inr by simp
    from release_None[OF this None] release_None[OF Inr None] show ?thesis
      by (simp add: cout_write_def set_handle_def)
  next
    case (Some r)
    have "the_handle this (cout_write t s) = Inr y" using Inr by simp
    from release_Some[OF this Some] release_Some[OF Inr Some] show ?thesis
      by (simp add: cout_write_def set_handle_def split: option.splits)
  qed
qed

lemma smart_ptr_eta [simp]: "\<lparr>ptr = ptr x, ref = ref x\<rparr> = (x :: smart_ptr)"
  by simp

lemma the_handle_cnts_update [simp]: "the_handle g (s\<lparr>cnts := c\<rparr>) = the_handle g s"
  by (simp add: the_handle_def)

lemma the_handle_set_handle:
  "the_handle g (set_handle h x s) =
     (if g = h \<and> h < length (handles s) then Inr x else the_handle g s)"
  by (auto simp: the_handle_def)


subsection \<open>Dereference and member access\<close>

text \<open>
  Claim C3. On a live handle, \<open>operator*\<close> and \<open>operator->\<close> throw \<open>null_ptr_exception\<close>
  exactly when the handle is empty (\<open>ptr_\<close> is null); on a non-empty handle they return the
  address held in \<open>ptr_\<close>. The exception reaches the caller as the result: an empty handle
  never yields an address.
\<close>

theorem deref_arrow_null_access:
  "the_handle this s = Inr x \<Longrightarrow>
     (deref this s = Inl Null_ptr_exception \<longleftrightarrow> ptr x = None) \<and>
     (arrow this s = Inl Null_ptr_exception \<longleftrightarrow> ptr x = None) \<and>
     (\<forall>p. ptr x = Some p \<longrightarrow> deref this s = Inr p \<and> arrow this s = Inr p)"
  by (auto simp: deref_def arrow_def split: option.splits)

theorem deref_arrow_null_access_witness:
  "the_handle 1 owner_and_empty = Inr \<lparr>ptr = None, ref = Some 2\<rparr> \<and>
   deref 1 owner_and_empty = Inl Null_ptr_exception \<and>
   arrow 1 owner_and_empty = Inl Null_ptr_exception \<and>
   the_handle 0 owner_and_empty = Inr \<lparr>ptr = Some 0, ref = Some 1\<rparr> \<and>
   deref 0 owner_and_empty = Inr 0 \<and> arrow 0 owner_and_empty = Inr 0"
proof -
  have e: "the_handle 1 owner_and_empty = Inr \<lparr>ptr = None, ref = Some 2\<rparr>"
    by (simp add: the_handle_def owner_and_empty_def)
  have f: "the_handle 0 owner_and_empty = Inr \<lparr>ptr = Some 0, ref = Some 1\<rparr>"
    by (simp add: the_handle_def owner_and_empty_def)
  show ?thesis
    using e f deref_arrow_null_access [OF e] deref_arrow_null_access [OF f] by simp
qed

subsection \<open>Construction from a null raw pointer\<close>

text \<open>
  Claim C9. Either raw-pointer constructor, called with \<open>nullptr\<close>, gives a handle that is
  empty (dereference and member access throw \<open>null_ptr_exception\<close>) and whose \<open>ref_count()\<close>
  is 1, in any store.
\<close>

theorem null_raw_ctor_count_one:
  "(let (raw', h, s') = ctor_raw None s
    in deref h s' = Inl Null_ptr_exception \<and> arrow h s' = Inl Null_ptr_exception \<and>
       ref_count h s' = Inr 1) \<and>
   (let (raw', h, s') = ctor_raw_consume None s
    in deref h s' = Inl Null_ptr_exception \<and> arrow h s' = Inl Null_ptr_exception \<and>
       ref_count h s' = Inr 1)"
  by (simp add: ctor_raw_def ctor_raw_consume_def new_int_def add_handle_def deref_def arrow_def
      ref_count_def the_handle_def load_def)

subsection \<open>Clone\<close>

text \<open>
  Claim C2. On a live handle, \<open>clone()\<close> returns false and leaves the store as it is when
  the handle is empty, and when its counter is exactly 1. On a non-empty handle whose value
  is \<open>v\<close> and whose counter is \<open>n \<ge> 2\<close> it returns true; afterwards the handle holds a newly
  allocated object with the content \<open>v\<close> and a newly allocated counter that is 1, the old
  counter is \<open>n - 1\<close>, no other object and no other counter has changed (so the old object
  still holds \<open>v\<close>), and no other handle has changed.
\<close>

theorem clone_spec:
  assumes h: "the_handle this s = Inr x"
  shows "(ptr x = None \<longrightarrow> clone this s = Inr (False, s)) \<and>
     (load (ref x) s = Inr 1 \<longrightarrow> clone this s = Inr (False, s)) \<and>
     (\<forall>p v r n. alloc_ok s \<and> ptr x = Some p \<and> vals s p = Some v \<and>
                 ref x = Some r \<and> cnts s r = Some n \<and> 2 \<le> n \<longrightarrow>
        (\<exists>s' p' r'. clone this s = Inr (True, s') \<and>
           the_handle this s' = Inr \<lparr>ptr = Some p', ref = Some r'\<rparr> \<and>
           vals s p' = None \<and> vals s' p' = Some v \<and>
           cnts s r' = None \<and> cnts s' r' = Some 1 \<and> ref_count this s' = Inr 1 \<and>
           cnts s' r = Some (n - 1) \<and>
           (\<forall>a. a \<noteq> p' \<longrightarrow> vals s' a = vals s a) \<and>
           (\<forall>a. a \<noteq> r \<and> a \<noteq> r' \<longrightarrow> cnts s' a = cnts s a) \<and>
           length (handles s') = length (handles s) \<and>
           (\<forall>i. i \<noteq> this \<longrightarrow> handles s' ! i = handles s ! i)))"
proof (intro conjI)
  show "ptr x = None \<longrightarrow> clone this s = Inr (False, s)"
    using h by (simp add: clone_def)
  show "load (ref x) s = Inr 1 \<longrightarrow> clone this s = Inr (False, s)"
    using h by (simp add: clone_def)
  show "\<forall>p v r n. alloc_ok s \<and> ptr x = Some p \<and> vals s p = Some v \<and>
                 ref x = Some r \<and> cnts s r = Some n \<and> 2 \<le> n \<longrightarrow>
        (\<exists>s' p' r'. clone this s = Inr (True, s') \<and>
           the_handle this s' = Inr \<lparr>ptr = Some p', ref = Some r'\<rparr> \<and>
           vals s p' = None \<and> vals s' p' = Some v \<and>
           cnts s r' = None \<and> cnts s' r' = Some 1 \<and> ref_count this s' = Inr 1 \<and>
           cnts s' r = Some (n - 1) \<and>
           (\<forall>a. a \<noteq> p' \<longrightarrow> vals s' a = vals s a) \<and>
           (\<forall>a. a \<noteq> r \<and> a \<noteq> r' \<longrightarrow> cnts s' a = cnts s a) \<and>
           length (handles s') = length (handles s) \<and>
           (\<forall>i. i \<noteq> this \<longrightarrow> handles s' ! i = handles s ! i))"
    using h
    by (auto simp add: clone_def load_def read_T_def new_T_def decr_def new_int_def
        set_handle_def the_handle_def ref_count_def alloc_ok_def INT_MIN_def
        split: if_splits option.splits)
qed

theorem clone_spec_witness:
  "the_handle 0 two_owners = Inr \<lparr>ptr = Some 0, ref = Some 1\<rparr> \<and>
   alloc_ok two_owners \<and> vals two_owners 0 = Some 42 \<and> cnts two_owners 1 = Some 2 \<and>
   (\<exists>s'. clone 0 two_owners = Inr (True, s') \<and>
      the_handle 0 s' = Inr \<lparr>ptr = Some 2, ref = Some 3\<rparr> \<and> vals s' 2 = Some 42 \<and>
      vals s' 0 = Some 42 \<and> cnts s' 3 = Some 1 \<and> cnts s' 1 = Some 1) \<and>
   clone 0 one_owner = Inr (False, one_owner) \<and>
   clone 1 owner_and_empty = Inr (False, owner_and_empty)"
proof -
  have a: "the_handle 0 two_owners = Inr \<lparr>ptr = Some 0, ref = Some 1\<rparr>"
    by (simp add: the_handle_def two_owners_def)
  have b: "the_handle 0 one_owner = Inr \<lparr>ptr = Some 0, ref = Some 1\<rparr>"
    by (simp add: the_handle_def one_owner_def)
  have c: "the_handle 1 owner_and_empty = Inr \<lparr>ptr = None, ref = Some 2\<rparr>"
    by (simp add: the_handle_def owner_and_empty_def)
  have d: "alloc_ok two_owners" "vals two_owners 0 = Some 42" "cnts two_owners 1 = Some 2"
    by (simp_all add: alloc_ok_def two_owners_def)
  have e: "load (Some 1) one_owner = Inr 1"
    by (simp add: load_def one_owner_def)
  have "clone 0 two_owners = Inr (True,
      \<lparr>vals = [0 \<mapsto> 42, 2 \<mapsto> 42], cnts = [1 \<mapsto> 1, 3 \<mapsto> 1], next_addr = 4,
       handles = [Some \<lparr>ptr = Some 2, ref = Some 3\<rparr>, Some \<lparr>ptr = Some 0, ref = Some 1\<rparr>],
       cout = []\<rparr>)"
    using clone_spec [OF a] d
    by (simp add: two_owners_def clone_def prim_defs INT_MIN_def)
  then show ?thesis
    using a d e clone_spec [OF b] clone_spec [OF c] by (simp add: the_handle_def)
qed

subsection \<open>Self-assignment\<close>

text \<open>
  Claim C8. Assigning a live handle to itself, by copy assignment or by move assignment,
  leaves every handle, every object and every counter as it was, in both copies of the
  class: nothing is released. The only trace is the line that the move assignment of the
  first copy writes to \<open>cout\<close>.
\<close>

theorem self_assign_noop:
  "the_handle h s = Inr x \<Longrightarrow>
     copy_assign h h s = Inr s \<and>
     move_assign Main_cpp h h s = Inr s \<and>
     move_assign PC h h s = Inr (s\<lparr>cout := cout s @ [''Move assignment operator called\<newline>'']\<rparr>)"
  by (simp add: copy_assign_def move_assign_def cout_write_def)

theorem self_assign_noop_witness:
  "the_handle 0 two_owners = Inr \<lparr>ptr = Some 0, ref = Some 1\<rparr> \<and>
   copy_assign 0 0 two_owners = Inr two_owners \<and>
   move_assign Main_cpp 0 0 two_owners = Inr two_owners \<and>
   move_assign PC 0 0 two_owners
     = Inr (two_owners\<lparr>cout := [''Move assignment operator called\<newline>'']\<rparr>)"
proof -
  have a: "the_handle 0 two_owners = Inr \<lparr>ptr = Some 0, ref = Some 1\<rparr>"
    by (simp add: the_handle_def two_owners_def)
  show ?thesis
    using a self_assign_noop [OF a] by (simp add: two_owners_def)
qed

subsection \<open>Copying\<close>

text \<open>
  Claim C7, as the claim states it, fails: copy assignment into a handle that already shares
  the source's counter first releases that share and then takes it again, so the counter is
  what it was, not one more. Here both handles of \<open>two_owners\<close> share the counter, which is
  2 before and 2 after \<open>sp2 = sp1\<close>.
\<close>

theorem copy_assign_same_group_counterexample:
  "deref 0 two_owners = Inr 0 \<and> ref_count 0 two_owners = Inr 2 \<and>
   bnd (copy_assign 1 0 two_owners) (ref_count 0) = Inr 2 \<and>
   bnd (copy_assign 1 0 two_owners) (ref_count 1) = Inr 2"
  by (simp add: two_owners_def prim_defs member_defs INT_MAX_def INT_MIN_def)

text \<open>
  Claim C7, amended. Let the source be a live handle. If it is non-empty and its counter is
  \<open>n\<close>, below \<open>INT_MAX\<close>: copy construction appends a handle with the source's two
  addresses and the counter becomes \<open>n + 1\<close>, which every handle holding that counter
  reads; copy assignment to another live handle that does not hold that counter, whose
  release is defined, does the same to the assigned handle; copy assignment to another
  handle that already holds that counter (\<open>n \<ge> 2\<close>) leaves the counter at \<open>n\<close>. If the
  source is empty, copy construction and copy assignment take over its two addresses and
  increment nothing.
\<close>

theorem copy_shares_and_counts:
  assumes src: "the_handle rhs s = Inr x"
  shows
   "(\<forall>p r n. ptr x = Some p \<and> ref x = Some r \<and> cnts s r = Some n \<and> n < INT_MAX \<longrightarrow>
       (\<exists>s'. ctor_copy rhs s = Inr (length (handles s), s') \<and>
             handles s' = handles s @ [Some x] \<and> vals s' = vals s \<and>
             cnts s' = (cnts s)(r \<mapsto> n + 1) \<and>
             (\<forall>g y. the_handle g s' = Inr y \<and> ref y = Some r \<longrightarrow> ref_count g s' = Inr (n + 1)))) \<and>
    (ptr x = None \<longrightarrow>
       ctor_copy rhs s = Inr (length (handles s), s\<lparr>handles := handles s @ [Some x]\<rparr>)) \<and>
    (\<forall>this y s1 p r n. this \<noteq> rhs \<and> the_handle this s = Inr y \<and> release this s = Inr s1 \<and>
         ref y \<noteq> Some r \<and> ptr x = Some p \<and> ref x = Some r \<and> cnts s r = Some n \<and> n < INT_MAX \<longrightarrow>
       (\<exists>s'. copy_assign this rhs s = Inr s' \<and> the_handle this s' = Inr x \<and>
             the_handle rhs s' = Inr x \<and> cnts s' r = Some (n + 1) \<and>
             (\<forall>g z. the_handle g s' = Inr z \<and> ref z = Some r \<longrightarrow> ref_count g s' = Inr (n + 1)))) \<and>
    (\<forall>this y p r n. this \<noteq> rhs \<and> the_handle this s = Inr y \<and> ref y = Some r \<and>
         ptr x = Some p \<and> ref x = Some r \<and> cnts s r = Some n \<and> 2 \<le> n \<and> n \<le> INT_MAX \<longrightarrow>
       (\<exists>s'. copy_assign this rhs s = Inr s' \<and> the_handle this s' = Inr x \<and>
             the_handle rhs s' = Inr x \<and> cnts s' r = Some n \<and>
             (\<forall>g z. the_handle g s' = Inr z \<and> ref z = Some r \<longrightarrow> ref_count g s' = Inr n))) \<and>
    (\<forall>this y s1. this \<noteq> rhs \<and> the_handle this s = Inr y \<and> release this s = Inr s1 \<and>
         ptr x = None \<longrightarrow>
       copy_assign this rhs s = Inr (set_handle this x s1))"
proof (intro conjI allI impI)
  fix p r n
  assume a: "ptr x = Some p \<and> ref x = Some r \<and> cnts s r = Some n \<and> n < INT_MAX"
  then have "ctor_copy rhs s
      = Inr (length (handles s), s\<lparr>handles := handles s @ [Some x], cnts := (cnts s)(r \<mapsto> n + 1)\<rparr>)"
    using src by (simp add: ctor_copy_def add_handle_def incr_def load_def)
  then show "\<exists>s'. ctor_copy rhs s = Inr (length (handles s), s') \<and>
             handles s' = handles s @ [Some x] \<and> vals s' = vals s \<and>
             cnts s' = (cnts s)(r \<mapsto> n + 1) \<and>
             (\<forall>g y. the_handle g s' = Inr y \<and> ref y = Some r \<longrightarrow> ref_count g s' = Inr (n + 1))"
    by (auto simp: ref_count_def load_def)
next
  assume "ptr x = None"
  then show "ctor_copy rhs s = Inr (length (handles s), s\<lparr>handles := handles s @ [Some x]\<rparr>)"
    using src by (simp add: ctor_copy_def add_handle_def)
next
  fix this y s1 p r n
  assume a: "this \<noteq> rhs \<and> the_handle this s = Inr y \<and> release this s = Inr s1 \<and>
         ref y \<noteq> Some r \<and> ptr x = Some p \<and> ref x = Some r \<and> cnts s r = Some n \<and> n < INT_MAX"
  then have h1: "the_handle rhs s1 = Inr x"
    using release_keeps_other_handle[of this s y s1 rhs] src by simp
  have c1: "cnts s1 r = Some n"
    using a release_other_counter[of this s y s1 r] by simp
  have e: "the_handle this s1 = Inr \<lparr>ptr = None, ref = None\<rparr>"
    using a release_makes_empty by blast
  have "copy_assign this rhs s
      = Inr (set_handle this \<lparr>ptr = ptr x, ref = ref x\<rparr> s1\<lparr>cnts := (cnts s1)(r \<mapsto> n + 1)\<rparr>)"
    using a src h1 c1 by (simp add: copy_assign_def incr_def load_def del: smart_ptr_eta)
  moreover have "this < length (handles s1)"
    using e by (simp add: the_handle_def split: if_splits)
  ultimately show "\<exists>s'. copy_assign this rhs s = Inr s' \<and> the_handle this s' = Inr x \<and>
             the_handle rhs s' = Inr x \<and> cnts s' r = Some (n + 1) \<and>
             (\<forall>g z. the_handle g s' = Inr z \<and> ref z = Some r \<longrightarrow> ref_count g s' = Inr (n + 1))"
    using h1 a by (auto simp: ref_count_def load_def the_handle_set_handle)
next
  fix this y p r n
  assume a: "this \<noteq> rhs \<and> the_handle this s = Inr y \<and> ref y = Some r \<and>
         ptr x = Some p \<and> ref x = Some r \<and> cnts s r = Some n \<and> 2 \<le> n \<and> n \<le> INT_MAX"
  define s1 where "s1 = set_handle this \<lparr>ptr = None, ref = None\<rparr> (s\<lparr>cnts := (cnts s)(r \<mapsto> n - 1)\<rparr>)"
  have r: "release this s = Inr s1"
    unfolding s1_def using a by (intro release_same_group[of this s y]) (auto simp: INT_MIN_def)
  then have h1: "the_handle rhs s1 = Inr x"
    using release_keeps_other_handle[of this s y s1 rhs] src a by simp
  have c1: "cnts s1 r = Some (n - 1)"
    by (simp add: s1_def)
  have "copy_assign this rhs s
      = Inr (set_handle this \<lparr>ptr = ptr x, ref = ref x\<rparr> s1\<lparr>cnts := (cnts s1)(r \<mapsto> n)\<rparr>)"
    using a src h1 c1 r by (simp add: copy_assign_def incr_def load_def del: smart_ptr_eta)
  moreover have "this < length (handles s1)"
    using a by (simp add: s1_def the_handle_def split: if_splits)
  ultimately show "\<exists>s'. copy_assign this rhs s = Inr s' \<and> the_handle this s' = Inr x \<and>
             the_handle rhs s' = Inr x \<and> cnts s' r = Some n \<and>
             (\<forall>g z. the_handle g s' = Inr z \<and> ref z = Some r \<longrightarrow> ref_count g s' = Inr n)"
    using h1 a by (auto simp: ref_count_def load_def the_handle_set_handle)
next
  fix this y s1
  assume a: "this \<noteq> rhs \<and> the_handle this s = Inr y \<and> release this s = Inr s1 \<and> ptr x = None"
  then have h1: "the_handle rhs s1 = Inr x"
    using release_keeps_other_handle[of this s y s1 rhs] src by simp
  show "copy_assign this rhs s = Inr (set_handle this x s1)"
    using a src h1 by (simp add: copy_assign_def)
qed

theorem copy_shares_and_counts_witness:
  "the_handle 0 one_owner = Inr \<lparr>ptr = Some 0, ref = Some 1\<rparr> \<and>
   cnts one_owner 1 = Some 1 \<and> 1 < INT_MAX \<and>
   ctor_copy 0 one_owner = Inr (1, two_owners) \<and>
   ref_count 0 two_owners = Inr 2 \<and> ref_count 1 two_owners = Inr 2 \<and>
   the_handle 1 owner_and_empty = Inr \<lparr>ptr = None, ref = Some 2\<rparr> \<and>
   release 1 owner_and_empty
     = Inr (owner_and_empty\<lparr>cnts := [1 \<mapsto> 1, 2 \<mapsto> - 1],
          handles := [Some \<lparr>ptr = Some 0, ref = Some 1\<rparr>, Some \<lparr>ptr = None, ref = None\<rparr>]\<rparr>) \<and>
   bnd (copy_assign 1 0 owner_and_empty) (the_handle 1) = Inr \<lparr>ptr = Some 0, ref = Some 1\<rparr> \<and>
   bnd (copy_assign 1 0 owner_and_empty) (ref_count 0) = Inr 2 \<and>
   bnd (copy_assign 1 0 owner_and_empty) (ref_count 1) = Inr 2 \<and>
   ctor_copy 1 owner_and_empty
     = Inr (2, owner_and_empty\<lparr>handles := handles owner_and_empty @ [Some \<lparr>ptr = None, ref = Some 2\<rparr>]\<rparr>)"
proof -
  have a: "the_handle 0 one_owner = Inr \<lparr>ptr = Some 0, ref = Some 1\<rparr>"
    by (simp add: the_handle_def one_owner_def)
  have b: "the_handle 0 owner_and_empty = Inr \<lparr>ptr = Some 0, ref = Some 1\<rparr>"
    by (simp add: the_handle_def owner_and_empty_def)
  have c: "the_handle 1 owner_and_empty = Inr \<lparr>ptr = None, ref = Some 2\<rparr>"
    by (simp add: the_handle_def owner_and_empty_def)
  have d: "cnts one_owner 1 = Some 1" "1 < INT_MAX"
    by (simp_all add: one_owner_def INT_MAX_def)
  have e: "release 1 owner_and_empty
     = Inr (owner_and_empty\<lparr>cnts := [1 \<mapsto> 1, 2 \<mapsto> - 1],
          handles := [Some \<lparr>ptr = Some 0, ref = Some 1\<rparr>, Some \<lparr>ptr = None, ref = None\<rparr>]\<rparr>)"
    by (simp add: owner_and_empty_def release_def prim_defs INT_MIN_def)
  have f: "ctor_copy 0 one_owner = Inr (1, two_owners)"
    by (simp add: one_owner_def two_owners_def ctor_copy_def prim_defs INT_MAX_def)
  have g: "ref_count 0 two_owners = Inr 2" "ref_count 1 two_owners = Inr 2"
    by (simp_all add: two_owners_def ref_count_def the_handle_def load_def)
  have i: "bnd (copy_assign 1 0 owner_and_empty) (the_handle 1) = Inr \<lparr>ptr = Some 0, ref = Some 1\<rparr>"
    "bnd (copy_assign 1 0 owner_and_empty) (ref_count 0) = Inr 2"
    "bnd (copy_assign 1 0 owner_and_empty) (ref_count 1) = Inr 2"
    by (simp_all add: owner_and_empty_def prim_defs member_defs INT_MAX_def INT_MIN_def)
  have j: "ctor_copy 1 owner_and_empty
     = Inr (2, owner_and_empty\<lparr>handles := handles owner_and_empty @ [Some \<lparr>ptr = None, ref = Some 2\<rparr>]\<rparr>)"
    by (simp add: owner_and_empty_def ctor_copy_def prim_defs)
  show ?thesis
    using copy_shares_and_counts [OF a] by (simp only: a c d e f g i j simp_thms)
qed

subsection \<open>Moving\<close>

text \<open>
  Claim C4, as the claim states it, fails: move assignment releases the destination's old
  share first, so when the destination already shares the source's counter, that counter
  goes down by one. In \<open>two_owners\<close> the counter is 2; after \<open>sp2 = std::move(sp1)\<close> only
  \<open>sp2\<close> is left and the counter is 1.
\<close>

theorem move_assign_same_group_counterexample:
  "ref_count 0 two_owners = Inr 2 \<and> ref_count 1 two_owners = Inr 2 \<and>
   bnd (move_assign PC 1 0 two_owners) (ref_count 1) = Inr 1 \<and>
   bnd (move_assign Main_cpp 1 0 two_owners) (ref_count 1) = Inr 1"
  by (simp add: two_owners_def prim_defs member_defs INT_MIN_def)

text \<open>
  Claim C4, amended. Let the source be a live handle. Move construction appends a handle
  with the source's two addresses, sets both fields of the source to null and changes no
  counter. Move assignment to another live handle whose release is defined gives the
  destination the source's two addresses and sets the source's \<open>ptr_\<close> to null; beyond the
  release of the destination's old share it changes no counter and no object: a counter the
  destination did not hold is as before, and the counter \<open>n \<noteq> 1\<close> it held is \<open>n - 1\<close>. In
  the first copy of the class the source's \<open>ref_\<close> is null afterwards as well.
\<close>

theorem move_transfers:
  assumes src: "the_handle rhs s = Inr x"
  shows
   "(\<exists>s'. ctor_move rhs s = Inr (length (handles s), s') \<and>
          handles s' = (handles s)[rhs := Some \<lparr>ptr = None, ref = None\<rparr>] @ [Some x] \<and>
          cnts s' = cnts s \<and> vals s' = vals s \<and>
          the_handle rhs s' = Inr \<lparr>ptr = None, ref = None\<rparr> \<and>
          the_handle (length (handles s)) s' = Inr x) \<and>
    (\<forall>var this y s1. this \<noteq> rhs \<and> the_handle this s = Inr y \<and> release this s = Inr s1 \<longrightarrow>
       (\<exists>s' z. move_assign var this rhs s = Inr s' \<and> the_handle this s' = Inr x \<and>
             cnts s' = cnts s1 \<and> vals s' = vals s1 \<and>
             (\<forall>r. ref y \<noteq> Some r \<longrightarrow> cnts s' r = cnts s r) \<and>
             (\<forall>r n. ref y = Some r \<and> cnts s r = Some n \<and> n \<noteq> 1 \<longrightarrow> cnts s' r = Some (n - 1)) \<and>
             the_handle rhs s' = Inr z \<and> ptr z = None \<and> (var = PC \<longrightarrow> ref z = None)))"
proof (intro conjI allI impI)
  have l: "rhs < length (handles s)"
    using src by (simp add: the_handle_def split: if_splits)
  have "ctor_move rhs s = Inr (length (handles s),
      s\<lparr>handles := (handles s)[rhs := Some \<lparr>ptr = None, ref = None\<rparr>] @ [Some x]\<rparr>)"
    using src l by (simp add: ctor_move_def add_handle_def set_handle_def list_update_append)
  then show "\<exists>s'. ctor_move rhs s = Inr (length (handles s), s') \<and>
          handles s' = (handles s)[rhs := Some \<lparr>ptr = None, ref = None\<rparr>] @ [Some x] \<and>
          cnts s' = cnts s \<and> vals s' = vals s \<and>
          the_handle rhs s' = Inr \<lparr>ptr = None, ref = None\<rparr> \<and>
          the_handle (length (handles s)) s' = Inr x"
    using l by (simp add: the_handle_def nth_append)
next
  fix var this y s1
  assume a: "this \<noteq> rhs \<and> the_handle this s = Inr y \<and> release this s = Inr s1"
  have l: "rhs < length (handles s1)" "this < length (handles s1)"
    using src a release_handles[of this s y s1] by (simp_all add: the_handle_def split: if_splits)
  have h1: "the_handle rhs s1 = Inr x"
    using release_keeps_other_handle[of this s y s1 rhs] src a by simp
  define t where "t = ''Move assignment operator called\<newline>''"
  define s2 where "s2 = (if var = PC then cout_write t s1 else s1)"
  have r: "release this (if var = PC then cout_write t s else s) = Inr s2"
    using a by (simp add: s2_def release_cout_write)
  have h2: "the_handle rhs s2 = Inr x" "rhs < length (handles s2)" "this < length (handles s2)"
    using h1 l by (simp_all add: s2_def)
  have m: "move_assign var this rhs s
      = Inr (if var = PC
             then set_handle rhs \<lparr>ptr = None, ref = None\<rparr>
                    (set_handle rhs (x\<lparr>ptr := None\<rparr>) (set_handle this \<lparr>ptr = ptr x, ref = ref x\<rparr> s2))
             else set_handle rhs (x\<lparr>ptr := None\<rparr>) (set_handle this \<lparr>ptr = ptr x, ref = ref x\<rparr> s2))"
    using a src r h2 unfolding move_assign_def t_def[symmetric] by (simp add: Let_def)
  have c: "cnts s2 = cnts s1" "vals s2 = vals s1"
    by (simp_all add: s2_def)
  have o: "\<And>r. ref y \<noteq> Some r \<Longrightarrow> cnts s1 r = cnts s r"
    using a release_other_counter[of this s y s1] by simp
  have g: "\<And>r n. ref y = Some r \<Longrightarrow> cnts s r = Some n \<Longrightarrow> n \<noteq> 1 \<Longrightarrow> cnts s1 r = Some (n - 1)"
    using a by (auto simp: release_Some split: if_splits)
  show "\<exists>s' z. move_assign var this rhs s = Inr s' \<and> the_handle this s' = Inr x \<and>
             cnts s' = cnts s1 \<and> vals s' = vals s1 \<and>
             (\<forall>r. ref y \<noteq> Some r \<longrightarrow> cnts s' r = cnts s r) \<and>
             (\<forall>r n. ref y = Some r \<and> cnts s r = Some n \<and> n \<noteq> 1 \<longrightarrow> cnts s' r = Some (n - 1)) \<and>
             the_handle rhs s' = Inr z \<and> ptr z = None \<and> (var = PC \<longrightarrow> ref z = None)"
    using a h2 c o g m by (cases var) (auto simp: the_handle_set_handle)
qed

theorem move_transfers_witness:
  "the_handle 0 owner_and_empty = Inr \<lparr>ptr = Some 0, ref = Some 1\<rparr> \<and>
   the_handle 1 owner_and_empty = Inr \<lparr>ptr = None, ref = Some 2\<rparr> \<and>
   release 1 owner_and_empty
     = Inr (owner_and_empty\<lparr>cnts := [1 \<mapsto> 1, 2 \<mapsto> - 1],
          handles := [Some \<lparr>ptr = Some 0, ref = Some 1\<rparr>, Some \<lparr>ptr = None, ref = None\<rparr>]\<rparr>) \<and>
   bnd (move_assign PC 1 0 owner_and_empty) (the_handle 1) = Inr \<lparr>ptr = Some 0, ref = Some 1\<rparr> \<and>
   bnd (move_assign PC 1 0 owner_and_empty) (the_handle 0) = Inr \<lparr>ptr = None, ref = None\<rparr> \<and>
   bnd (move_assign PC 1 0 owner_and_empty) (ref_count 1) = Inr 1 \<and>
   bnd (move_assign Main_cpp 1 0 owner_and_empty) (the_handle 1) = Inr \<lparr>ptr = Some 0, ref = Some 1\<rparr> \<and>
   bnd (move_assign Main_cpp 1 0 owner_and_empty) (ref_count 1) = Inr 1 \<and>
   bnd (ctor_move 0 one_owner) (\<lambda>(h, s'). the_handle h s') = Inr \<lparr>ptr = Some 0, ref = Some 1\<rparr> \<and>
   bnd (ctor_move 0 one_owner) (\<lambda>(h, s'). the_handle 0 s') = Inr \<lparr>ptr = None, ref = None\<rparr> \<and>
   bnd (ctor_move 0 one_owner) (\<lambda>(h, s'). ref_count h s') = Inr 1"
proof -
  have a: "the_handle 0 one_owner = Inr \<lparr>ptr = Some 0, ref = Some 1\<rparr>"
    by (simp add: the_handle_def one_owner_def)
  have b: "the_handle 0 owner_and_empty = Inr \<lparr>ptr = Some 0, ref = Some 1\<rparr>"
    by (simp add: the_handle_def owner_and_empty_def)
  have c: "the_handle 1 owner_and_empty = Inr \<lparr>ptr = None, ref = Some 2\<rparr>"
    by (simp add: the_handle_def owner_and_empty_def)
  have e: "release 1 owner_and_empty
     = Inr (owner_and_empty\<lparr>cnts := [1 \<mapsto> 1, 2 \<mapsto> - 1],
          handles := [Some \<lparr>ptr = Some 0, ref = Some 1\<rparr>, Some \<lparr>ptr = None, ref = None\<rparr>]\<rparr>)"
    by (simp add: owner_and_empty_def release_def prim_defs INT_MIN_def)
  have m: "bnd (move_assign PC 1 0 owner_and_empty) (the_handle 1) = Inr \<lparr>ptr = Some 0, ref = Some 1\<rparr>"
    "bnd (move_assign PC 1 0 owner_and_empty) (the_handle 0) = Inr \<lparr>ptr = None, ref = None\<rparr>"
    "bnd (move_assign PC 1 0 owner_and_empty) (ref_count 1) = Inr 1"
    "bnd (move_assign Main_cpp 1 0 owner_and_empty) (the_handle 1) = Inr \<lparr>ptr = Some 0, ref = Some 1\<rparr>"
    "bnd (move_assign Main_cpp 1 0 owner_and_empty) (ref_count 1) = Inr 1"
    by (simp_all add: owner_and_empty_def prim_defs member_defs INT_MIN_def)
  have n: "bnd (ctor_move 0 one_owner) (\<lambda>(h, s'). the_handle h s') = Inr \<lparr>ptr = Some 0, ref = Some 1\<rparr>"
    "bnd (ctor_move 0 one_owner) (\<lambda>(h, s'). the_handle 0 s') = Inr \<lparr>ptr = None, ref = None\<rparr>"
    "bnd (ctor_move 0 one_owner) (\<lambda>(h, s'). ref_count h s') = Inr 1"
    by (simp_all add: one_owner_def prim_defs member_defs)
  show ?thesis
    using move_transfers [OF b] by (simp only: b c e m n simp_thms)
qed

subsection \<open>Release and leaks\<close>

text \<open>
  Claim C5. The claim does not hold of the code, in either copy of the class. A
  default-constructed handle allocates a counter that is 0; its destructor decrements the
  counter to -1, which is not 0, and so frees nothing: the counter stays allocated and no
  handle holds its address. A handle built from a null raw pointer has the counter 1 and a
  copy of it does not increment (its \<open>ptr_\<close> is null), so the destructor of the first frees
  the counter and the destructor of the second reads the freed counter.
\<close>

theorem default_handle_leaks_its_counter:
  "run var [Default_ctor, Dtor 0] (init :: int state)
     = Inr ([Handle 0, Done],
            \<lparr>vals = Map.empty, cnts = [0 \<mapsto> - 1], next_addr = 1, handles = [None], cout = []\<rparr>) \<and>
   leaked_counts
     \<lparr>vals = (Map.empty :: addr \<Rightarrow> int option), cnts = [0 \<mapsto> - 1], next_addr = 1,
      handles = [None], cout = []\<rparr> = [0] \<and>
   run var [Raw_ctor None, Copy_ctor 0, Dtor 0, Dtor 1] (init :: int state)
     = Inl (Undefined Use_after_free)"
  by (simp add: init_def prim_defs member_defs INT_MIN_def leaked_counts_def ref_of_def)

subsection \<open>The count of a handle that was moved from\<close>

text \<open>
  Claim C6. The claim does not hold of the code, in either copy of the class: the move
  constructor sets \<open>ref_\<close> of its source to null, and \<open>ref_count()\<close> reads \<open>*ref_\<close> without
  a test, so the query on a handle that was moved from reads through a null pointer.
\<close>

theorem ref_count_after_move_is_undefined:
  "run var [Raw_ctor_consume (Some 42), Move_ctor 0, Ref_count 0] (init :: int state)
     = Inl (Undefined Null_deref) \<and>
   results var [Raw_ctor_consume (Some 42), Move_ctor 0, Deref 0] (init :: int state)
     = Inl Null_ptr_exception"
  by (simp add: init_def results_def prim_defs member_defs)

subsection \<open>The two copies of the class\<close>

text \<open>
  Claim C10. The two copies differ in the move assignment between two distinct handles: the
  first sets \<open>rhs.ref_\<close> to null, the second names a member \<open>red_\<close> and leaves \<open>rhs.ref_\<close>
  as it was. After \<open>sp1{new int{42}}; sp3; sp3 = std::move(sp1)\<close> the handle tables differ,
  and \<open>sp1.ref_count()\<close> is undefined in the first copy and 1 in the second.
\<close>

theorem variants_differ_on_move_assign:
  "final_handles PC [Raw_ctor_consume (Some 42), Default_ctor, Move_assign 1 0] (init :: int state)
     = Inr [Some \<lparr>ptr = None, ref = None\<rparr>, Some \<lparr>ptr = Some 0, ref = Some 1\<rparr>] \<and>
   final_handles Main_cpp [Raw_ctor_consume (Some 42), Default_ctor, Move_assign 1 0] (init :: int state)
     = Inr [Some \<lparr>ptr = None, ref = Some 1\<rparr>, Some \<lparr>ptr = Some 0, ref = Some 1\<rparr>] \<and>
   results PC [Raw_ctor_consume (Some 42), Default_ctor, Move_assign 1 0, Ref_count 0]
       (init :: int state)
     = Inl (Undefined Null_deref) \<and>
   results Main_cpp [Raw_ctor_consume (Some 42), Default_ctor, Move_assign 1 0, Ref_count 0]
       (init :: int state)
     = Inr [Handle 0, Handle 1, Done, Count 1]"
  by (simp add: init_def results_def final_handles_def prim_defs member_defs INT_MIN_def)

text \<open>
  Every operation other than the move assignment is the same function in both copies.
\<close>

lemma variants_agree_elsewhere:
  "(case c of Move_assign d e \<Rightarrow> False | _ \<Rightarrow> True) \<Longrightarrow> step Main_cpp c s = step PC c s"
  by (cases c) simp_all

subsection \<open>The invariant is kept\<close>

lemma nrefs_append: "nrefs r (hs @ [z]) = nrefs r hs + (if ref_of z = Some r then 1 else 0)"
  by (simp add: nrefs_def)

lemma count_update:
  "d < length hs \<Longrightarrow>
     length (filter P (hs[d := z])) + (if P (hs ! d) then 1 else 0)
       = length (filter P hs) + (if P z then 1 else 0)"
proof (induction hs arbitrary: d)
  case Nil
  then show ?case by simp
next
  case (Cons a hs)
  show ?case
  proof (cases d)
    case 0
    then show ?thesis by simp
  next
    case (Suc e)
    with Cons.prems have "e < length hs" by simp
    from Cons.IH[OF this] Suc show ?thesis by simp
  qed
qed

lemma nrefs_update:
  "d < length hs \<Longrightarrow>
     nrefs r (hs[d := z]) =
       nrefs r hs - (if ref_of (hs ! d) = Some r then 1 else 0) + (if ref_of z = Some r then 1 else 0)"
  using count_update[of d hs "\<lambda>y. ref_of y = Some r" z]
  by (simp add: nrefs_def split: if_splits)

lemma nrefs_pos: "z \<in> set hs \<Longrightarrow> ref_of z = Some r \<Longrightarrow> 1 \<le> nrefs r hs"
  by (induction hs) (auto simp: nrefs_def)

lemma nrefs_none: "\<forall>z\<in>set hs. ref_of z \<noteq> Some r \<Longrightarrow> nrefs r hs = 0"
  by (induction hs) (auto simp: nrefs_def)

lemma in_set_update: "z \<in> set (hs[d := y]) \<Longrightarrow> z = y \<or> z \<in> set hs"
  using set_update_subset_insert[of hs d y] by auto

lemma own_blank_update:
  assumes o: "owners_ok vs cs hs" and d: "d < length hs" and b: "blank (hs ! d)" "blank y"
  shows "owners_ok vs cs (hs[d := y])"
  unfolding owners_ok_def
proof (intro ballI allI impI)
  fix z p assume z: "z \<in> set (hs[d := y])" and p: "ptr_of z = Some p"
  have n: "\<And>r. nrefs r (hs[d := y]) = nrefs r hs"
    using d b by (simp add: nrefs_update blank_def)
  from z p b have zin: "z \<in> set hs" using in_set_update[OF z] by (auto simp: blank_def)
  from o zin p obtain r where r: "vs p \<noteq> None" "ref_of z = Some r" "cs r = Some (nrefs r hs)"
    "\<forall>w\<in>set hs. (ref_of w = Some r) = (ptr_of w = Some p)"
    unfolding owners_ok_def by blast
  have "\<forall>w\<in>set (hs[d := y]). (ref_of w = Some r) = (ptr_of w = Some p)"
  proof
    fix w assume "w \<in> set (hs[d := y])"
    from in_set_update[OF this] show "(ref_of w = Some r) = (ptr_of w = Some p)"
      using r(4) b by (auto simp: blank_def)
  qed
  with r n show "vs p \<noteq> None \<and>
        (\<exists>r. ref_of z = Some r \<and> cs r = Some (nrefs r (hs[d := y])) \<and>
             (\<forall>w\<in>set (hs[d := y]). (ref_of w = Some r) = (ptr_of w = Some p)))"
    by auto
qed

lemma own_append_blank:
  assumes o: "owners_ok vs cs hs" and b: "blank y"
  shows "owners_ok vs cs (hs @ [y])"
  unfolding owners_ok_def
proof (intro ballI allI impI)
  fix z p assume z: "z \<in> set (hs @ [y])" and p: "ptr_of z = Some p"
  from z p b have zin: "z \<in> set hs" by (auto simp: blank_def)
  from o zin p obtain r where r: "vs p \<noteq> None" "ref_of z = Some r" "cs r = Some (nrefs r hs)"
    "\<forall>w\<in>set hs. (ref_of w = Some r) = (ptr_of w = Some p)"
    unfolding owners_ok_def by blast
  then show "vs p \<noteq> None \<and>
        (\<exists>r. ref_of z = Some r \<and> cs r = Some (nrefs r (hs @ [y])) \<and>
             (\<forall>w\<in>set (hs @ [y]). (ref_of w = Some r) = (ptr_of w = Some p)))"
    using b by (auto simp: nrefs_append blank_def)
qed

lemma own_fill_fresh:
  assumes o: "owners_ok vs cs hs" and d: "d < length hs" and b: "blank (hs ! d)"
    and r: "ref_of z = Some r" "\<forall>w\<in>set hs. ref_of w \<noteq> Some r"
    and p: "\<And>p. ptr_of z = Some p \<Longrightarrow> vs' p \<noteq> None \<and> k = 1 \<and> (\<forall>w\<in>set hs. ptr_of w \<noteq> Some p)"
    and v: "\<And>a. vs a \<noteq> None \<Longrightarrow> vs' a \<noteq> None"
  shows "owners_ok vs' (cs(r \<mapsto> k)) (hs[d := z])"
  unfolding owners_ok_def
proof (intro ballI allI impI)
  fix w q assume w: "w \<in> set (hs[d := z])" and q: "ptr_of w = Some q"
  have n: "\<And>a. nrefs a (hs[d := z]) = nrefs a hs + (if a = r then 1 else 0)"
    using d b r(1) by (auto simp: nrefs_update blank_def)
  have n0: "nrefs r hs = 0" using r(2) by (rule nrefs_none)
  from in_set_update[OF w] show "vs' q \<noteq> None \<and>
        (\<exists>a. ref_of w = Some a \<and> (cs(r \<mapsto> k)) a = Some (nrefs a (hs[d := z])) \<and>
             (\<forall>u\<in>set (hs[d := z]). (ref_of u = Some a) = (ptr_of u = Some q)))"
  proof
    assume wz: "w = z"
    with q p[of q] have f: "vs' q \<noteq> None" "k = 1" "\<forall>u\<in>set hs. ptr_of u \<noteq> Some q" by auto
    have "\<forall>u\<in>set (hs[d := z]). (ref_of u = Some r) = (ptr_of u = Some q)"
    proof
      fix u assume "u \<in> set (hs[d := z])"
      from in_set_update[OF this] show "(ref_of u = Some r) = (ptr_of u = Some q)"
        using r f(3) wz q by auto
    qed
    with f wz r n n0 show ?thesis by auto
  next
    assume win: "w \<in> set hs"
    from o win q obtain a where a: "vs q \<noteq> None" "ref_of w = Some a" "cs a = Some (nrefs a hs)"
      "\<forall>u\<in>set hs. (ref_of u = Some a) = (ptr_of u = Some q)"
      unfolding owners_ok_def by blast
    have ar: "a \<noteq> r" using a(2) r(2) win by auto
    have zq: "ptr_of z \<noteq> Some q" using p[of q] win q by auto
    have "\<forall>u\<in>set (hs[d := z]). (ref_of u = Some a) = (ptr_of u = Some q)"
    proof
      fix u assume "u \<in> set (hs[d := z])"
      from in_set_update[OF this] show "(ref_of u = Some a) = (ptr_of u = Some q)"
        using a(4) ar zq r(1) by auto
    qed
    with a ar n v show ?thesis by auto
  qed
qed

lemma own_fill_alias:
  assumes o: "owners_ok vs cs hs" and d: "d < length hs" and b: "blank (hs ! d)"
    and x: "x \<in> set hs" "ptr_of z = ptr_of x" "ref_of z = ref_of x"
    and c: "\<And>p r. ptr_of x = Some p \<Longrightarrow> ref_of x = Some r \<Longrightarrow>
               \<exists>n. cs r = Some n \<and> cs' = cs(r \<mapsto> n + 1)"
           "ptr_of x = None \<Longrightarrow> cs' = cs"
  shows "owners_ok vs cs' (hs[d := z])"
  unfolding owners_ok_def
proof (intro ballI allI impI)
  fix w q assume w: "w \<in> set (hs[d := z])" and q: "ptr_of w = Some q"
  have n: "\<And>a. nrefs a (hs[d := z]) = nrefs a hs + (if ref_of x = Some a then 1 else 0)"
    using d b x(3) by (auto simp: nrefs_update blank_def)
  have win: "ptr_of x = Some q \<or> w \<in> set hs"
    using in_set_update[OF w] q x(2) by auto
  have "\<exists>w'\<in>set hs. ptr_of w' = Some q \<and> ref_of w' = ref_of w"
    using in_set_update[OF w] q x by auto
  then obtain w' where w': "w' \<in> set hs" "ptr_of w' = Some q" "ref_of w' = ref_of w" by blast
  from o w'(1,2) obtain a where a: "vs q \<noteq> None" "ref_of w' = Some a" "cs a = Some (nrefs a hs)"
    "\<forall>u\<in>set hs. (ref_of u = Some a) = (ptr_of u = Some q)"
    unfolding owners_ok_def by blast
  have i: "\<forall>u\<in>set (hs[d := z]). (ref_of u = Some a) = (ptr_of u = Some q)"
  proof
    fix u assume "u \<in> set (hs[d := z])"
    from in_set_update[OF this] show "(ref_of u = Some a) = (ptr_of u = Some q)"
      using a(4) x by auto
  qed
  have "cs' a = Some (nrefs a (hs[d := z]))"
  proof (cases "ptr_of x")
    case None
    then have "ref_of x \<noteq> Some a" using a(4) x(1) by auto
    with None c(2) a(3) n show ?thesis by simp
  next
    case (Some p)
    from o x(1) Some obtain r where r: "ref_of x = Some r" "cs r = Some (nrefs r hs)"
      unfolding owners_ok_def by blast
    from c(1)[OF Some r(1)] r(2) have cs': "cs' = cs(r \<mapsto> nrefs r hs + 1)" by auto
    show ?thesis using cs' a(3) n r(1) by auto
  qed
  with a i w'(3) show "vs q \<noteq> None \<and>
        (\<exists>a. ref_of w = Some a \<and> cs' a = Some (nrefs a (hs[d := z])) \<and>
             (\<forall>u\<in>set (hs[d := z]). (ref_of u = Some a) = (ptr_of u = Some q)))"
    by auto
qed

lemma own_release_dec:
  assumes o: "owners_ok vs cs hs" and d: "d < length hs" and r: "ref_of (hs ! d) = Some r"
    and m: "cs r = Some m" and b: "blank y"
  shows "owners_ok vs (cs(r \<mapsto> m - 1)) (hs[d := y])"
  unfolding owners_ok_def
proof (intro ballI allI impI)
  fix w q assume w: "w \<in> set (hs[d := y])" and q: "ptr_of w = Some q"
  have n: "\<And>a. nrefs a (hs[d := y]) = nrefs a hs - (if a = r then 1 else 0)"
    using d b r by (auto simp: nrefs_update blank_def)
  from in_set_update[OF w] q b have win: "w \<in> set hs" by (auto simp: blank_def)
  from o win q obtain a where a: "vs q \<noteq> None" "ref_of w = Some a" "cs a = Some (nrefs a hs)"
    "\<forall>u\<in>set hs. (ref_of u = Some a) = (ptr_of u = Some q)"
    unfolding owners_ok_def by blast
  have i: "\<forall>u\<in>set (hs[d := y]). (ref_of u = Some a) = (ptr_of u = Some q)"
  proof
    fix u assume "u \<in> set (hs[d := y])"
    from in_set_update[OF this] show "(ref_of u = Some a) = (ptr_of u = Some q)"
      using a(4) b by (auto simp: blank_def)
  qed
  have "(cs(r \<mapsto> m - 1)) a = Some (nrefs a (hs[d := y]))"
    using a(3) m n by auto
  with a i show "vs q \<noteq> None \<and>
        (\<exists>a. ref_of w = Some a \<and> (cs(r \<mapsto> m - 1)) a = Some (nrefs a (hs[d := y])) \<and>
             (\<forall>u\<in>set (hs[d := y]). (ref_of u = Some a) = (ptr_of u = Some q)))"
    by auto
qed

lemma own_release_free:
  assumes o: "owners_ok vs cs hs" and d: "d < length hs" and r: "ref_of (hs ! d) = Some r"
    and m: "cs r = Some 1" and b: "blank y"
    and v: "vs' = (case ptr_of (hs ! d) of None \<Rightarrow> vs | Some p \<Rightarrow> vs(p := None))"
  shows "owners_ok vs' (cs(r := None)) (hs[d := y])"
  unfolding owners_ok_def
proof (intro ballI allI impI)
  fix w q assume w: "w \<in> set (hs[d := y])" and q: "ptr_of w = Some q"
  have n: "\<And>a. nrefs a (hs[d := y]) = nrefs a hs - (if a = r then 1 else 0)"
    using d b r by (auto simp: nrefs_update blank_def)
  from in_set_update[OF w] q b have win: "w \<in> set hs" by (auto simp: blank_def)
  from o win q obtain a where a: "vs q \<noteq> None" "ref_of w = Some a" "cs a = Some (nrefs a hs)"
    "\<forall>u\<in>set hs. (ref_of u = Some a) = (ptr_of u = Some q)"
    unfolding owners_ok_def by blast
  have ar: "a \<noteq> r"
  proof
    assume "a = r"
    with a(3) m n have "nrefs r (hs[d := y]) = 0" by simp
    moreover have "1 \<le> nrefs r (hs[d := y])"
      using nrefs_pos[OF w] a(2) \<open>a = r\<close> by simp
    ultimately show False by simp
  qed
  have dq: "ptr_of (hs ! d) \<noteq> Some q"
  proof
    assume e: "ptr_of (hs ! d) = Some q"
    have "hs ! d \<in> set hs" using d by simp
    with a(4) e have "ref_of (hs ! d) = Some a" by blast
    with r ar show False by simp
  qed
  have i: "\<forall>u\<in>set (hs[d := y]). (ref_of u = Some a) = (ptr_of u = Some q)"
  proof
    fix u assume "u \<in> set (hs[d := y])"
    from in_set_update[OF this] show "(ref_of u = Some a) = (ptr_of u = Some q)"
      using a(4) b by (auto simp: blank_def)
  qed
  have "vs' q \<noteq> None" using a(1) dq v by (auto split: option.splits)
  moreover have "(cs(r := None)) a = Some (nrefs a (hs[d := y]))"
    using a(3) ar n by auto
  ultimately show "vs' q \<noteq> None \<and>
        (\<exists>a. ref_of w = Some a \<and> (cs(r := None)) a = Some (nrefs a (hs[d := y])) \<and>
             (\<forall>u\<in>set (hs[d := y]). (ref_of u = Some a) = (ptr_of u = Some q)))"
    using a i by auto
qed

lemma own_noref_blank:
  assumes o: "owners_ok vs cs hs" and d: "d < length hs" and r: "ref_of (hs ! d) = None"
  shows "blank (hs ! d)"
proof -
  have "hs ! d \<in> set hs" using d by simp
  with o r have "ptr_of (hs ! d) = None"
    unfolding owners_ok_def by (cases "ptr_of (hs ! d)") auto
  with r show ?thesis by (simp add: blank_def)
qed

lemma own_move:
  assumes o: "owners_ok vs cs hs" and d: "d < length hs" and e: "e < length hs" and de: "d \<noteq> e"
    and b: "blank (hs ! d)" "blank y"
  shows "owners_ok vs cs (hs[d := hs ! e, e := y])"
  unfolding owners_ok_def
proof (intro ballI allI impI)
  let ?hs = "hs[d := hs ! e, e := y]"
  fix w q assume w: "w \<in> set ?hs" and q: "ptr_of w = Some q"
  have n: "\<And>a. nrefs a ?hs = nrefs a hs"
    using d e de b by (auto simp: nrefs_update blank_def)
  have sub: "\<And>u. u \<in> set ?hs \<Longrightarrow> u = y \<or> u \<in> set hs"
  proof -
    fix u assume "u \<in> set ?hs"
    from in_set_update[OF this] have "u = y \<or> u \<in> set (hs[d := hs ! e])" .
    then show "u = y \<or> u \<in> set hs"
      using in_set_update[of u hs d "hs ! e"] e by auto
  qed
  from sub[OF w] q b have win: "w \<in> set hs" by (auto simp: blank_def)
  from o win q obtain a where a: "vs q \<noteq> None" "ref_of w = Some a" "cs a = Some (nrefs a hs)"
    "\<forall>u\<in>set hs. (ref_of u = Some a) = (ptr_of u = Some q)"
    unfolding owners_ok_def by blast
  have i: "\<forall>u\<in>set ?hs. (ref_of u = Some a) = (ptr_of u = Some q)"
  proof
    fix u assume "u \<in> set ?hs"
    from sub[OF this] show "(ref_of u = Some a) = (ptr_of u = Some q)"
      using a(4) b by (auto simp: blank_def)
  qed
  with a n show "vs q \<noteq> None \<and>
        (\<exists>a. ref_of w = Some a \<and> cs a = Some (nrefs a ?hs) \<and>
             (\<forall>u\<in>set ?hs. (ref_of u = Some a) = (ptr_of u = Some q)))"
    by auto
qed

lemma blank_simps [simp]:
  "blank None" "blank (Some \<lparr>ptr = None, ref = None\<rparr>)"
  by (simp_all add: blank_def ptr_of_def ref_of_def)

lemma of_Some [simp]: "ptr_of (Some x) = ptr x" "ref_of (Some x) = ref x"
  by (simp_all add: ptr_of_def ref_of_def)

lemma of_None [simp]: "ptr_of None = None" "ref_of None = None"
  by (simp_all add: ptr_of_def ref_of_def)

lemma hok_update:
  assumes "handles_below n hs" "n \<le> n'" "\<And>a. ptr_of z = Some a \<or> ref_of z = Some a \<Longrightarrow> a < n'"
  shows "handles_below n' (hs[d := z])"
  unfolding handles_below_def
proof (intro ballI allI impI)
  fix y a assume y: "y \<in> set (hs[d := z])" and a: "ptr_of y = Some a \<or> ref_of y = Some a"
  from in_set_update[OF y] show "a < n'"
  proof
    assume "y = z" with a assms(3) show ?thesis by blast
  next
    assume "y \<in> set hs"
    with assms(1) a have "a < n" unfolding handles_below_def by blast
    with assms(2) show ?thesis by simp
  qed
qed

lemma hok_append:
  assumes "handles_below n hs" "n \<le> n'" "\<And>a. ptr_of z = Some a \<or> ref_of z = Some a \<Longrightarrow> a < n'"
  shows "handles_below n' (hs @ [z])"
  unfolding handles_below_def
proof (intro ballI allI impI)
  fix y a assume y: "y \<in> set (hs @ [z])" and a: "ptr_of y = Some a \<or> ref_of y = Some a"
  from y have "y = z \<or> y \<in> set hs" by auto
  then show "a < n'"
  proof
    assume "y = z" with a assms(3) show ?thesis by blast
  next
    assume "y \<in> set hs"
    with assms(1) a have "a < n" unfolding handles_below_def by blast
    with assms(2) show ?thesis by simp
  qed
qed

lemma hok_nth:
  "handles_below n hs \<Longrightarrow> d < length hs \<Longrightarrow> ptr_of (hs ! d) = Some a \<or> ref_of (hs ! d) = Some a \<Longrightarrow> a < n"
  unfolding handles_below_def using nth_mem by blast

lemma hok_fresh:
  assumes "handles_below n hs" "n \<le> a"
  shows "\<forall>w\<in>set hs. ref_of w \<noteq> Some a" "\<forall>w\<in>set hs. ptr_of w \<noteq> Some a"
  using assms unfolding handles_below_def by fastforce+

lemma the_handle_nth:
  "the_handle d s = Inr x \<Longrightarrow> d < length (handles s) \<and> handles s ! d = Some x"
  by (auto simp: the_handle_def split: if_splits option.splits)

lemma wf_release:
  assumes i: "well_formed s" and r: "release d s = Inr s1"
  shows "well_formed s1"
proof -
  from r obtain y where y: "the_handle d s = Inr y"
    by (cases "the_handle d s") (auto simp: release_def)
  from the_handle_nth[OF y] have d: "d < length (handles s)" "handles s ! d = Some y" by auto
  from i have a: "alloc_ok s" and h: "handles_below (next_addr s) (handles s)"
    and o: "owners_ok (vals s) (cnts s) (handles s)" by (auto simp: well_formed_def)
  let ?E = "Some \<lparr>ptr = None, ref = None\<rparr>"
  have hk: "handles_below (next_addr s) ((handles s)[d := ?E])"
    by (rule hok_update[OF h]) auto
  show ?thesis
  proof (cases "ref y")
    case None
    with y r have s1: "s1 = set_handle d \<lparr>ptr = None, ref = None\<rparr> s"
      by (simp add: release_None)
    have "blank (handles s ! d)"
      using own_noref_blank[OF o d(1)] d(2) None by simp
    from own_blank_update[OF o d(1) this, of ?E] a hk show ?thesis
      by (simp add: s1 well_formed_def alloc_ok_def)
  next
    case (Some q)
    have q: "ref_of (handles s ! d) = Some q" using d(2) Some by simp
    have ql: "q < next_addr s" using hok_nth[OF h d(1)] q by blast
    from r y Some obtain m where m: "cnts s q = Some m" "m \<noteq> INT_MIN"
      by (auto simp: release_Some split: option.splits if_splits)
    show ?thesis
    proof (cases "m = 1")
      case False
      with r y Some m have s1: "s1 = set_handle d \<lparr>ptr = None, ref = None\<rparr> (s\<lparr>cnts := (cnts s)(q \<mapsto> m - 1)\<rparr>)"
        by (simp add: release_Some)
      from own_release_dec[OF o d(1) q m(1), of ?E] a hk ql show ?thesis
        by (simp add: s1 well_formed_def alloc_ok_def)
    next
      case True
      define vs' where "vs' = (case ptr_of (handles s ! d) of None \<Rightarrow> vals s | Some p \<Rightarrow> (vals s)(p := None))"
      from own_release_free[OF o d(1) q _ _ vs'_def, of ?E] m True
      have o': "owners_ok vs' ((cnts s)(q := None)) ((handles s)[d := ?E])" by simp
      have "vals s1 = vs' \<and> cnts s1 = (cnts s)(q := None) \<and> handles s1 = (handles s)[d := ?E]
            \<and> next_addr s1 = next_addr s"
        using r y Some m True d(2)
        by (auto simp: release_Some vs'_def split: option.splits if_splits)
      moreover have "\<forall>a. next_addr s \<le> a \<longrightarrow> vs' a = None"
        using a by (auto simp: vs'_def alloc_ok_def split: option.splits)
      ultimately show ?thesis using o' a hk
        by (simp add: well_formed_def alloc_ok_def)
    qed
  qed
qed

lemma wf_fresh_handle:
  assumes i: "well_formed s"
    and z: "ref z = Some r" "next_addr s \<le> r" "r < n'"
    and p: "\<And>p. ptr z = Some p \<Longrightarrow> vs' p \<noteq> None \<and> k = 1 \<and> next_addr s \<le> p \<and> p < n'"
    and v: "\<And>a. vals s a \<noteq> None \<Longrightarrow> vs' a \<noteq> None" "\<And>a. n' \<le> a \<Longrightarrow> vs' a = None"
  shows "well_formed (s\<lparr>vals := vs', cnts := (cnts s)(r \<mapsto> k), next_addr := n', handles := handles s @ [Some z]\<rparr>)"
proof -
  from i have a: "alloc_ok s" and h: "handles_below (next_addr s) (handles s)"
    and o: "owners_ok (vals s) (cnts s) (handles s)" by (auto simp: well_formed_def)
  have le: "next_addr s \<le> n'" using z by simp
  have hk: "handles_below n' (handles s @ [Some z])"
  proof (rule hok_append[OF h le])
    fix a assume "ptr_of (Some z) = Some a \<or> ref_of (Some z) = Some a"
    then show "a < n'" using z p[of a] by auto
  qed
  have h0: "handles_below (next_addr s) (handles s @ [None])"
    by (rule hok_append[OF h]) auto
  have "owners_ok vs' ((cnts s)(r \<mapsto> k)) ((handles s @ [None])[length (handles s) := Some z])"
  proof (rule own_fill_fresh[OF own_append_blank[OF o, of None]])
    show "\<forall>w\<in>set (handles s @ [None]). ref_of w \<noteq> Some r"
      using hok_fresh(1)[OF h0 z(2)] .
    fix q assume "ptr_of (Some z) = Some q"
    then show "vs' q \<noteq> None \<and> k = 1 \<and> (\<forall>w\<in>set (handles s @ [None]). ptr_of w \<noteq> Some q)"
      using p[of q] hok_fresh(2)[OF h0, of q] by simp
  qed (use z v in auto)
  then have "owners_ok vs' ((cnts s)(r \<mapsto> k)) (handles s @ [Some z])" by simp
  moreover have "\<forall>a. n' \<le> a \<longrightarrow> vs' a = None \<and> ((cnts s)(r \<mapsto> k)) a = None"
    using a v(2) z le by (auto simp: alloc_ok_def)
  ultimately show ?thesis using hk by (simp add: well_formed_def alloc_ok_def)
qed

lemma wf_ctor_default:
  assumes "well_formed s" "ctor_default s = (h, s')"
  shows "well_formed s'"
proof -
  have "s' = s\<lparr>vals := vals s, cnts := (cnts s)(next_addr s \<mapsto> 0), next_addr := Suc (next_addr s),
               handles := handles s @ [Some \<lparr>ptr = None, ref = Some (next_addr s)\<rparr>]\<rparr>"
    using assms(2) by (auto simp: ctor_default_def new_int_def add_handle_def)
  moreover have "well_formed \<dots>"
    using assms(1) by (intro wf_fresh_handle) (auto simp: well_formed_def alloc_ok_def)
  ultimately show ?thesis by simp
qed

lemma wf_raw_ctor:
  assumes "well_formed s"
    and "s' = snd (snd (ctor_raw (fst (new_raw v s)) (snd (new_raw v s)))) \<or>
         s' = snd (snd (ctor_raw_consume (fst (new_raw v s)) (snd (new_raw v s))))"
  shows "well_formed s'"
proof (cases v)
  case None
  have "s' = s\<lparr>vals := vals s, cnts := (cnts s)(next_addr s \<mapsto> 1), next_addr := Suc (next_addr s),
               handles := handles s @ [Some \<lparr>ptr = None, ref = Some (next_addr s)\<rparr>]\<rparr>"
    using assms(2) None
    by (auto simp: ctor_raw_def ctor_raw_consume_def new_raw_def new_int_def add_handle_def)
  moreover have "well_formed \<dots>"
    using assms(1) by (intro wf_fresh_handle) (auto simp: well_formed_def alloc_ok_def)
  ultimately show ?thesis by simp
next
  case (Some w)
  have "s' = s\<lparr>vals := (vals s)(next_addr s \<mapsto> w), cnts := (cnts s)(Suc (next_addr s) \<mapsto> 1),
               next_addr := Suc (Suc (next_addr s)),
               handles := handles s @ [Some \<lparr>ptr = Some (next_addr s), ref = Some (Suc (next_addr s))\<rparr>]\<rparr>"
    using assms(2) Some
    by (auto simp: ctor_raw_def ctor_raw_consume_def new_raw_def new_int_def new_T_def add_handle_def)
  moreover have "well_formed \<dots>"
    using assms(1) by (intro wf_fresh_handle) (auto simp: well_formed_def alloc_ok_def)
  ultimately show ?thesis by simp
qed

lemma wf_alias:
  assumes i: "well_formed s" and d: "d < length (handles s)" "blank (handles s ! d)"
    and e: "the_handle e s = Inr x"
    and r: "(if ptr x \<noteq> None then incr (ref x) (set_handle d x s) else Inr (set_handle d x s)) = Inr s'"
  shows "well_formed s'"
proof -
  from i have a: "alloc_ok s" and h: "handles_below (next_addr s) (handles s)"
    and o: "owners_ok (vals s) (cnts s) (handles s)" by (auto simp: well_formed_def)
  from the_handle_nth[OF e] have el: "e < length (handles s)" "handles s ! e = Some x" by auto
  then have xin: "Some x \<in> set (handles s)" using nth_mem by fastforce
  have hk: "handles_below (next_addr s) ((handles s)[d := Some x])"
  proof (rule hok_update[OF h])
    fix a assume "ptr_of (Some x) = Some a \<or> ref_of (Some x) = Some a"
    then show "a < next_addr s" using hok_nth[OF h el(1), of a] el(2) by simp
  qed simp
  have f: "vals s' = vals s \<and> next_addr s' = next_addr s \<and> handles s' = (handles s)[d := Some x]"
    using r by (auto simp: incr_def load_def set_handle_def split: if_splits option.splits)
  have c1: "\<And>p q. ptr_of (Some x) = Some p \<Longrightarrow> ref_of (Some x) = Some q \<Longrightarrow>
               \<exists>n. cnts s q = Some n \<and> cnts s' = (cnts s)(q \<mapsto> n + 1)"
    using r by (auto simp: incr_def load_def set_handle_def split: if_splits option.splits)
  have c2: "ptr_of (Some x) = None \<Longrightarrow> cnts s' = cnts s"
    using r by (auto simp: set_handle_def)
  have "owners_ok (vals s) (cnts s') ((handles s)[d := Some x])"
    by (rule own_fill_alias[OF o d xin refl refl c1 c2])
  moreover have "\<forall>a. next_addr s \<le> a \<longrightarrow> cnts s' a = None"
  proof (cases "ptr x")
    case None
    with c2 a show ?thesis by (simp add: alloc_ok_def)
  next
    case (Some p)
    from o xin Some obtain q where q: "ref x = Some q" unfolding owners_ok_def by fastforce
    from c1[of p q] Some q obtain n where "cnts s' = (cnts s)(q \<mapsto> n + 1)" by auto
    moreover have "q < next_addr s" using hok_nth[OF h el(1), of q] el(2) q by simp
    ultimately show ?thesis using a by (auto simp: alloc_ok_def)
  qed
  ultimately show ?thesis using a hk f by (simp add: well_formed_def alloc_ok_def)
qed

lemma wf_handles_upd:
  assumes "well_formed s" "owners_ok (vals s) (cnts s) hs'" "handles_below (next_addr s) hs'"
  shows "well_formed (s\<lparr>handles := hs'\<rparr>)"
  using assms by (simp add: well_formed_def alloc_ok_def)

lemma wf_ctor_copy:
  assumes i: "well_formed s" and r: "ctor_copy e s = Inr (h, s')"
  shows "well_formed s'"
proof -
  from r obtain x where x: "the_handle e s = Inr x"
    by (cases "the_handle e s") (auto simp: ctor_copy_def)
  define s0 where "s0 = s\<lparr>handles := handles s @ [None]\<rparr>"
  from i have a: "alloc_ok s" and hh: "handles_below (next_addr s) (handles s)"
    and o: "owners_ok (vals s) (cnts s) (handles s)" by (auto simp: well_formed_def)
  have i0: "well_formed s0" unfolding s0_def
    by (rule wf_handles_upd[OF i own_append_blank[OF o] hok_append[OF hh]]) auto
  have x0: "the_handle e s0 = Inr x"
    using x by (auto simp: s0_def the_handle_def nth_append split: if_splits)
  have eq: "set_handle (length (handles s)) x s0 = s\<lparr>handles := handles s @ [Some x]\<rparr>"
    by (simp add: s0_def set_handle_def)
  have "(if ptr x \<noteq> None then incr (ref x) (set_handle (length (handles s)) x s0)
         else Inr (set_handle (length (handles s)) x s0)) = Inr s'"
    using r x unfolding eq
    by (auto simp: ctor_copy_def add_handle_def bnd_def split: if_splits sum.splits)
  from wf_alias[OF i0 _ _ x0 this] show ?thesis by (simp add: s0_def)
qed

lemma wf_move:
  assumes i: "well_formed s" and d: "d < length (handles s)" "blank (handles s ! d)"
    and e: "e < length (handles s)" "d \<noteq> e" and b: "blank y"
  shows "well_formed (s\<lparr>handles := (handles s)[d := handles s ! e, e := y]\<rparr>)"
proof -
  from i have hh: "handles_below (next_addr s) (handles s)"
    and o: "owners_ok (vals s) (cnts s) (handles s)" by (auto simp: well_formed_def)
  have "handles_below (next_addr s) ((handles s)[d := handles s ! e])"
    by (rule hok_update[OF hh]) (use hok_nth[OF hh e(1)] in auto)
  then have "handles_below (next_addr s) ((handles s)[d := handles s ! e, e := y])"
    by (rule hok_update) (use b in \<open>auto simp: blank_def\<close>)
  from wf_handles_upd[OF i own_move[OF o d(1) e(1) e(2) d(2) b] this] show ?thesis .
qed

lemma wf_ctor_move:
  assumes i: "well_formed s" and r: "ctor_move e s = Inr (h, s')"
  shows "well_formed s'"
proof -
  from r obtain x where x: "the_handle e s = Inr x"
    by (cases "the_handle e s") (auto simp: ctor_move_def)
  from the_handle_nth[OF x] have el: "e < length (handles s)" "handles s ! e = Some x" by auto
  define s0 where "s0 = s\<lparr>handles := handles s @ [None]\<rparr>"
  from i have hh: "handles_below (next_addr s) (handles s)"
    and o: "owners_ok (vals s) (cnts s) (handles s)" by (auto simp: well_formed_def)
  have i0: "well_formed s0" unfolding s0_def
    by (rule wf_handles_upd[OF i own_append_blank[OF o] hok_append[OF hh]]) auto
  have "s' = s0\<lparr>handles := (handles s0)[length (handles s) := handles s0 ! e,
                                        e := Some \<lparr>ptr = None, ref = None\<rparr>]\<rparr>"
    using r x el by (auto simp: ctor_move_def add_handle_def set_handle_def s0_def nth_append)
  moreover have "well_formed \<dots>"
    by (rule wf_move[OF i0]) (use el in \<open>auto simp: s0_def\<close>)
  ultimately show ?thesis by simp
qed

lemma release_result:
  assumes "release d s = Inr s1"
  shows "d < length (handles s1) \<and> handles s1 ! d = Some \<lparr>ptr = None, ref = None\<rparr> \<and>
         length (handles s1) = length (handles s) \<and>
         (\<forall>e. e \<noteq> d \<longrightarrow> the_handle e s1 = the_handle e s)"
proof -
  from assms obtain y where y: "the_handle d s = Inr y"
    by (cases "the_handle d s") (auto simp: release_def)
  from release_handles[OF y assms] the_handle_nth[OF y] show ?thesis
    by (auto simp: the_handle_def)
qed

lemma wf_copy_assign:
  assumes i: "well_formed s" and r: "copy_assign d e s = Inr s'"
  shows "well_formed s'"
proof (cases "d = e")
  case True
  with r have "s' = s"
    by (auto simp: copy_assign_def bnd_def split: sum.splits)
  with i show ?thesis by simp
next
  case False
  from r False obtain s1 where s1: "release d s = Inr s1"
    by (cases "release d s") (auto simp: copy_assign_def bnd_def split: sum.splits)
  from r False s1 obtain x where x: "the_handle e s1 = Inr x"
    by (cases "the_handle e s1") (auto simp: copy_assign_def bnd_def split: sum.splits)
  have "(if ptr x \<noteq> None then incr (ref x) (set_handle d x s1) else Inr (set_handle d x s1)) = Inr s'"
    using r False s1 x by (auto simp: copy_assign_def bnd_def Let_def split: sum.splits if_splits)
  from wf_alias[OF wf_release[OF i s1] _ _ x this] release_result[OF s1] show ?thesis
    by simp
qed

lemma wf_cout_write: "well_formed (cout_write t s) = well_formed s"
  by (simp add: well_formed_def alloc_ok_def cout_write_def)

lemma wf_move_assign:
  assumes i: "well_formed s" and r: "move_assign var d e s = Inr s'" and v: "var = PC \<or> d = e"
  shows "well_formed s'"
proof (cases "d = e")
  case True
  with r have "s' = s \<or> s' = cout_write ''Move assignment operator called\<newline>'' s"
    by (auto simp: move_assign_def bnd_def Let_def split: sum.splits if_splits)
  with i show ?thesis by (auto simp: wf_cout_write)
next
  case False
  with v have pc: "var = PC" by simp
  define s0 where "s0 = cout_write ''Move assignment operator called\<newline>'' s"
  have i0: "well_formed s0" using i by (simp add: s0_def wf_cout_write)
  from r False pc obtain s1 where s1: "release d s0 = Inr s1"
    by (cases "release d s0") (auto simp: move_assign_def s0_def bnd_def Let_def split: sum.splits)
  from r False pc s1 obtain x where x: "the_handle e s1 = Inr x"
    by (cases "the_handle e s1")
      (auto simp: move_assign_def s0_def bnd_def Let_def split: sum.splits)
  from the_handle_nth[OF x] have el: "e < length (handles s1)" "handles s1 ! e = Some x" by auto
  have "s' = s1\<lparr>handles := (handles s1)[d := handles s1 ! e, e := Some \<lparr>ptr = None, ref = None\<rparr>]\<rparr>"
    using r False pc s1 x el
    by (auto simp: move_assign_def s0_def[symmetric] bnd_def Let_def set_handle_def
        split: sum.splits)
  moreover have "well_formed \<dots>"
    by (rule wf_move[OF wf_release[OF i0 s1]]) (use release_result[OF s1] el False in auto)
  ultimately show ?thesis by simp
qed

lemma wf_dtor:
  assumes i: "well_formed s" and r: "dtor d s = Inr s'"
  shows "well_formed s'"
proof -
  from r obtain s1 where s1: "release d s = Inr s1" and s': "s' = end_lifetime d s1"
    by (cases "release d s") (auto simp: dtor_def)
  have i1: "well_formed s1" by (rule wf_release[OF i s1])
  then have hh: "handles_below (next_addr s1) (handles s1)"
    and o: "owners_ok (vals s1) (cnts s1) (handles s1)" by (auto simp: well_formed_def)
  from release_result[OF s1] have d: "d < length (handles s1)" "blank (handles s1 ! d)" by auto
  have "well_formed (s1\<lparr>handles := (handles s1)[d := None]\<rparr>)"
    by (rule wf_handles_upd[OF i1 own_blank_update[OF o d] hok_update[OF hh]]) auto
  then show ?thesis by (simp add: s' end_lifetime_def)
qed

lemma wf_clone:
  assumes i: "well_formed s" and r: "clone d s = Inr (b, s')"
  shows "well_formed s'"
proof (cases b)
  case False
  from r obtain x where x: "the_handle d s = Inr x"
    by (cases "the_handle d s") (auto simp: clone_def)
  have "s' = s" using r x False
    by (auto simp: clone_def bnd_def Let_def split: sum.splits if_splits prod.splits)
  with i show ?thesis by simp
next
  case True
  from r obtain x where x: "the_handle d s = Inr x"
    by (cases "the_handle d s") (auto simp: clone_def)
  from the_handle_nth[OF x] have dl: "d < length (handles s)" "handles s ! d = Some x" by auto
  from i have a: "alloc_ok s" and hh: "handles_below (next_addr s) (handles s)"
    and o: "owners_ok (vals s) (cnts s) (handles s)" by (auto simp: well_formed_def)
  from r x True obtain p where p: "ptr x = Some p"
    by (cases "ptr x") (auto simp: clone_def)
  from r x True p obtain q m where q: "ref x = Some q" "cnts s q = Some m"
    by (auto simp: clone_def load_def bnd_def split: option.splits sum.splits)
  from r x True p q obtain v where v: "vals s p = Some v"
    by (auto simp: clone_def load_def read_T_def bnd_def split: option.splits sum.splits if_splits)
  let ?n = "next_addr s"
  let ?E = "Some \<lparr>ptr = None, ref = None\<rparr>"
  let ?z = "Some \<lparr>ptr = Some ?n, ref = Some (Suc ?n)\<rparr>"
  have ql: "q < ?n" using hok_nth[OF hh dl(1), of q] dl(2) q by simp
  have s': "s' = s\<lparr>vals := (vals s)(?n \<mapsto> v), cnts := (cnts s)(q \<mapsto> m - 1, Suc ?n \<mapsto> 1),
                  next_addr := Suc (Suc ?n), handles := (handles s)[d := ?z]\<rparr>"
    using r x True p q v ql
    by (auto simp: clone_def load_def read_T_def new_T_def decr_def new_int_def set_handle_def
        split: if_splits)
  have o1: "owners_ok (vals s) ((cnts s)(q \<mapsto> m - 1)) ((handles s)[d := ?E])"
    by (rule own_release_dec[OF o dl(1) _ q(2)]) (use dl q in auto)
  have h1: "handles_below ?n ((handles s)[d := ?E])"
    by (rule hok_update[OF hh]) auto
  have "owners_ok ((vals s)(?n \<mapsto> v)) ((cnts s)(q \<mapsto> m - 1, Suc ?n \<mapsto> 1)) ((handles s)[d := ?E, d := ?z])"
  proof (rule own_fill_fresh[OF o1])
    show "\<forall>w\<in>set ((handles s)[d := ?E]). ref_of w \<noteq> Some (Suc ?n)"
      by (rule hok_fresh(1)[OF h1]) simp
    fix a assume "ptr_of ?z = Some a"
    then show "((vals s)(?n \<mapsto> v)) a \<noteq> None \<and> (1::int) = 1 \<and>
        (\<forall>w\<in>set ((handles s)[d := ?E]). ptr_of w \<noteq> Some a)"
      using hok_fresh(2)[OF h1, of ?n] by auto
  qed (use dl in auto)
  then have o2: "owners_ok ((vals s)(?n \<mapsto> v)) ((cnts s)(q \<mapsto> m - 1, Suc ?n \<mapsto> 1)) ((handles s)[d := ?z])"
    by simp
  have h2: "handles_below (Suc (Suc ?n)) ((handles s)[d := ?z])"
    by (rule hok_update[OF hh]) auto
  show ?thesis using o2 h2 a ql by (auto simp: s' well_formed_def alloc_ok_def)
qed

lemma wf_init: "well_formed init"
  by (simp add: well_formed_def init_def alloc_ok_def handles_below_def owners_ok_def)

lemma wf_step:
  assumes i: "well_formed s" and c: "sound_op var c" and r: "step var c s = Inr (res, s')"
  shows "well_formed s'"
proof (cases c)
  case Default_ctor
  with r i show ?thesis
    by (auto simp: Let_def split: prod.splits dest: wf_ctor_default)
next
  case (Raw_ctor v)
  with r have "s' = snd (snd (ctor_raw (fst (new_raw v s)) (snd (new_raw v s))))"
    by (auto simp: Let_def split: prod.splits)
  with i show ?thesis using wf_raw_ctor by blast
next
  case (Raw_ctor_consume v)
  with r have "s' = snd (snd (ctor_raw_consume (fst (new_raw v s)) (snd (new_raw v s))))"
    by (auto simp: Let_def split: prod.splits)
  with i show ?thesis using wf_raw_ctor by blast
next
  case (Copy_ctor e)
  with r obtain h where "ctor_copy e s = Inr (h, s')"
    by (cases "ctor_copy e s") auto
  with i show ?thesis by (rule wf_ctor_copy)
next
  case (Move_ctor e)
  with r obtain h where "ctor_move e s = Inr (h, s')"
    by (cases "ctor_move e s") auto
  with i show ?thesis by (rule wf_ctor_move)
next
  case (Copy_assign d e)
  with r have "copy_assign d e s = Inr s'"
    by (cases "copy_assign d e s") auto
  with i show ?thesis by (rule wf_copy_assign)
next
  case (Move_assign d e)
  with r have "move_assign var d e s = Inr s'"
    by (cases "move_assign var d e s") auto
  with i show ?thesis using c Move_assign by (auto simp: sound_op_def intro: wf_move_assign)
next
  case (Clone d)
  with r obtain b where "clone d s = Inr (b, s')"
    by (cases "clone d s") auto
  with i show ?thesis by (rule wf_clone)
next
  case (Ref_count d)
  with r i show ?thesis by (cases "ref_count d s") auto
next
  case (Deref d)
  with r i show ?thesis by (cases "deref d s") auto
next
  case (Arrow d)
  with r i show ?thesis by (cases "arrow d s") auto
next
  case (Dtor d)
  with r have "dtor d s = Inr s'"
    by (cases "dtor d s") auto
  with i show ?thesis by (rule wf_dtor)
qed

lemma wf_run:
  "well_formed s \<Longrightarrow> list_all (sound_op var) cs \<Longrightarrow> run var cs s = Inr (rs, s') \<Longrightarrow>
     well_formed s'"
proof (induction cs arbitrary: s rs)
  case Nil
  then show ?case by simp
next
  case (Cons c cs)
  from Cons.prems(3) obtain res s1 where s1: "step var c s = Inr (res, s1)"
    by (cases "step var c s") auto
  with Cons.prems(3) obtain rs1 where "run var cs s1 = Inr (rs1, s')"
    by (cases "run var cs s1") auto
  moreover have "well_formed s1"
    using wf_step[OF Cons.prems(1) _ s1] Cons.prems(2) by simp
  ultimately show ?case using Cons.IH Cons.prems(2) by simp
qed

lemma nrefs_nptrs:
  assumes "\<forall>z\<in>set hs. (ref_of z = Some r) = (ptr_of z = Some p)"
  shows "nrefs r hs = nptrs p hs"
proof -
  have "filter (\<lambda>y. ref_of y = Some r) hs = filter (\<lambda>y. ptr_of y = Some p) hs"
    using assms by (intro filter_cong) auto
  then show ?thesis by (simp add: nrefs_def nptrs_def)
qed

lemma wf_count:
  assumes w: "well_formed s" and h: "the_handle h s = Inr x" and p: "ptr x = Some p"
  shows "ref_count h s = Inr (nptrs p (handles s)) \<and> 1 \<le> nptrs p (handles s)"
proof -
  from the_handle_nth[OF h] have hl: "h < length (handles s)" "handles s ! h = Some x" by auto
  then have xin: "Some x \<in> set (handles s)" using nth_mem by fastforce
  from w have o: "owners_ok (vals s) (cnts s) (handles s)" by (simp add: well_formed_def)
  from o xin p obtain r where r: "ref x = Some r" "cnts s r = Some (nrefs r (handles s))"
    "\<forall>z\<in>set (handles s). (ref_of z = Some r) = (ptr_of z = Some p)"
    unfolding owners_ok_def by fastforce
  have "ref_count h s = Inr (nrefs r (handles s))"
    using h r by (simp add: ref_count_def load_def)
  moreover have "1 \<le> nrefs r (handles s)"
    using nrefs_pos[OF xin] r(1) by simp
  ultimately show ?thesis using nrefs_nptrs[OF r(3)] by simp
qed

subsection \<open>Count zero and emptiness\<close>

text \<open>
  Claim C1, as the claim states it, fails: a handle constructed from a null raw pointer is
  empty, and its count is 1.
\<close>

theorem null_raw_handle_counterexample:
  "results PC [Raw_ctor None, Deref 0] (init :: int state) = Inl Null_ptr_exception \<and>
   results PC [Raw_ctor None, Ref_count 0] (init :: int state) = Inr [Handle 0, Count 1] \<and>
   results Main_cpp [Raw_ctor_consume None, Deref 0] (init :: int state) = Inl Null_ptr_exception \<and>
   results Main_cpp [Raw_ctor_consume None, Ref_count 0] (init :: int state)
     = Inr [Handle 0, Count 1]"
  by (simp add: init_def results_def prim_defs member_defs)

text \<open>
  Claim C1, amended. Take a program over either copy of the class, with no move assignment
  between two distinct handles where the copy is the second one, whose raw-pointer
  constructors are given null or a newly allocated object, and a handle that is live after
  it. If the handle is non-empty, \<open>ref_count()\<close> returns the number of live handles that
  point to the same object, which is at least 1; so if \<open>ref_count()\<close> returns 0 the handle
  is empty. A default-constructed handle is empty and its count is 0; a handle constructed
  from a non-null raw pointer is non-empty and its count is 1.
\<close>

theorem count_of_reachable_handle:
  assumes "run var cs init = Inr (rs, s)" and "list_all (sound_op var) cs"
    and "the_handle h s = Inr x"
  shows "(\<forall>p. ptr x = Some p \<longrightarrow>
            ref_count h s = Inr (nptrs p (handles s)) \<and> 1 \<le> nptrs p (handles s)) \<and>
         (ref_count h s = Inr 0 \<longrightarrow> ptr x = None) \<and>
         (\<forall>s0. let (h0, s1) = ctor_default s0
               in ref_count h0 s1 = Inr 0 \<and> deref h0 s1 = Inl Null_ptr_exception) \<and>
         (\<forall>a s0. let (raw, h0, s1) = ctor_raw (Some a) s0
               in ref_count h0 s1 = Inr 1 \<and> deref h0 s1 = Inr a) \<and>
         (\<forall>a s0. let (raw, h0, s1) = ctor_raw_consume (Some a) s0
               in ref_count h0 s1 = Inr 1 \<and> deref h0 s1 = Inr a)"
proof -
  have w: "well_formed s"
    using wf_run[OF wf_init assms(2) assms(1)] .
  have a: "\<forall>p. ptr x = Some p \<longrightarrow>
            ref_count h s = Inr (nptrs p (handles s)) \<and> 1 \<le> nptrs p (handles s)"
    using wf_count[OF w assms(3)] by blast
  have b: "ref_count h s = Inr 0 \<longrightarrow> ptr x = None"
  proof
    assume z: "ref_count h s = Inr 0"
    show "ptr x = None"
    proof (cases "ptr x")
      case (Some p)
      with a z show ?thesis by auto
    qed simp
  qed
  have c: "\<forall>s0. let (h0, s1) = ctor_default s0
               in ref_count h0 s1 = Inr 0 \<and> deref h0 s1 = Inl Null_ptr_exception"
    by (simp add: ctor_default_def new_int_def add_handle_def ref_count_def deref_def
        the_handle_def load_def)
  have d: "\<forall>a s0. let (raw, h0, s1) = ctor_raw (Some a) s0
               in ref_count h0 s1 = Inr 1 \<and> deref h0 s1 = Inr a"
    by (simp add: ctor_raw_def new_int_def add_handle_def ref_count_def deref_def
        the_handle_def load_def)
  have e: "\<forall>a s0. let (raw, h0, s1) = ctor_raw_consume (Some a) s0
               in ref_count h0 s1 = Inr 1 \<and> deref h0 s1 = Inr a"
    by (simp add: ctor_raw_consume_def new_int_def add_handle_def ref_count_def deref_def
        the_handle_def load_def)
  from a b c d e show ?thesis by blast
qed

theorem count_of_reachable_handle_witness:
  "run PC [Raw_ctor_consume (Some 42), Copy_ctor 0] init = Inr ([Handle 0, Handle 1], two_owners) \<and>
   list_all (sound_op PC) [Raw_ctor_consume (Some (42 :: int)), Copy_ctor 0] \<and>
   the_handle 0 two_owners = Inr \<lparr>ptr = Some 0, ref = Some 1\<rparr> \<and>
   nptrs 0 (handles two_owners) = 2 \<and>
   ref_count 0 two_owners = Inr 2 \<and>
   run Main_cpp [Raw_ctor_consume (Some 42), Default_ctor] init
     = Inr ([Handle 0, Handle 1], owner_and_empty) \<and>
   list_all (sound_op Main_cpp) [Raw_ctor_consume (Some (42 :: int)), Default_ctor] \<and>
   the_handle 1 owner_and_empty = Inr \<lparr>ptr = None, ref = Some 2\<rparr> \<and>
   ref_count 1 owner_and_empty = Inr 0"
proof -
  have a: "run PC [Raw_ctor_consume (Some 42), Copy_ctor 0] init = Inr ([Handle 0, Handle 1], two_owners)"
    by (rule two_owners_run)
  have b: "list_all (sound_op PC) [Raw_ctor_consume (Some (42 :: int)), Copy_ctor 0]"
    by (simp add: sound_op_def)
  have c: "the_handle 0 two_owners = Inr \<lparr>ptr = Some 0, ref = Some 1\<rparr>"
    by (simp add: the_handle_def two_owners_def)
  have d: "nptrs 0 (handles two_owners) = 2"
    by (simp add: nptrs_def two_owners_def)
  from count_of_reachable_handle [OF a b c] d have e: "ref_count 0 two_owners = Inr 2"
    by auto
  have f: "run Main_cpp [Raw_ctor_consume (Some 42), Default_ctor] init
     = Inr ([Handle 0, Handle 1], owner_and_empty)"
    by (rule owner_and_empty_run)
  have g: "list_all (sound_op Main_cpp) [Raw_ctor_consume (Some (42 :: int)), Default_ctor]"
    by (simp add: sound_op_def)
  have i: "the_handle 1 owner_and_empty = Inr \<lparr>ptr = None, ref = Some 2\<rparr>"
    by (simp add: the_handle_def owner_and_empty_def)
  have j: "ref_count 1 owner_and_empty = Inr 0"
    by (simp add: ref_count_def the_handle_def load_def owner_and_empty_def)
  show ?thesis
    using count_of_reachable_handle [OF f g i] by (simp only: a b c d e f g i j simp_thms)
qed

end
